theory Spec2Isabelle
  imports Main "HOL-Library.Sublist" "HOL-Library.AList"
begin

text \<open>
  The secure action gateway of the \<^verbatim>\<open>secure-browser\<close> extension: the guard on browser
  actions and the URL tracker (\<^verbatim>\<open>hooks/browser-guard.ts\<close>), the ledger of pending
  approvals (\<^verbatim>\<open>tools/confirm-action.ts\<close>), and the credential bridge with the vault fill
  tool (\<^verbatim>\<open>vault.ts\<close>, \<^verbatim>\<open>tools/vault-fill.ts\<close>).  Each function of the source is a
  function here with the same name and the same branches; closure variables and module
  state are passed in and returned; an exception is a value.  Calls of the logger have
  no part in what the functions return and are left out.
\<close>

section \<open>Strings\<close>

text \<open>
  A JavaScript string is modelled as a \<^typ>\<open>string\<close>: one \<^typ>\<open>char\<close> per UTF-16 code
  unit, for code units below 256 (ASCII and Latin-1).  On that range
  \<^verbatim>\<open>String.prototype.toLowerCase\<close> changes exactly the letters \<^verbatim>\<open>A-Z\<close> and the
  Latin-1 capitals \<^verbatim>\<open>U+00C0-U+00DE\<close> (without the multiplication sign \<^verbatim>\<open>U+00D7\<close>),
  each to the code unit 32 above it.
\<close>

definition toLowerChar :: "char \<Rightarrow> char" where
  "toLowerChar c =
     (let n = (of_char c :: nat)
      in if (65 \<le> n \<and> n \<le> 90) \<or> (192 \<le> n \<and> n \<le> 222 \<and> n \<noteq> 215)
         then char_of (n + 32) else c)"

definition toLowerCase :: "string \<Rightarrow> string" where
  "toLowerCase s = map toLowerChar s"

text \<open>\<^verbatim>\<open>s.includes(t)\<close>: \<open>t\<close> occurs in \<open>s\<close> as a contiguous run.\<close>

fun strIncludes :: "string \<Rightarrow> string \<Rightarrow> bool" where
  "strIncludes [] t = (t = [])"
| "strIncludes (x # s) t = (prefix t (x # s) \<or> strIncludes s t)"

text \<open>\<^verbatim>\<open>s.endsWith(t)\<close> and \<^verbatim>\<open>s.startsWith(t)\<close>.\<close>

definition endsWith :: "string \<Rightarrow> string \<Rightarrow> bool" where
  "endsWith s t = suffix t s"

definition startsWith :: "string \<Rightarrow> string \<Rightarrow> bool" where
  "startsWith s t = prefix t s"

text \<open>\<^verbatim>\<open>parts.join(" ")\<close>.\<close>

fun joinSpace :: "string list \<Rightarrow> string" where
  "joinSpace [] = []"
| "joinSpace [p] = p"
| "joinSpace (p # q # ps) = p @ CHR '' '' # joinSpace (q # ps)"


section \<open>Regular expressions of the source\<close>

text \<open>
  The regular expressions of the source are alternatives of sequences built from literal
  characters, \<^verbatim>\<open>.?\<close>, \<^verbatim>\<open>x?\<close> and \<^verbatim>\<open>.*\<close>, all with the flag \<^verbatim>\<open>i\<close> and none with the flag
  \<^verbatim>\<open>g\<close>, so \<^verbatim>\<open>test\<close> is a stateless search for a match starting anywhere in the string.
  The literals of the patterns are lower-case ASCII (or not letters), so a code unit
  matches a literal exactly when its lower-case form is the literal.  The dot matches any
  code unit but a line terminator (\<^verbatim>\<open>\n\<close> and \<^verbatim>\<open>\r\<close> on the modelled range).
\<close>

datatype item = Lit char | AnyOpt | LitOpt char | AnyStar

definition lineTerminator :: "char \<Rightarrow> bool" where
  "lineTerminator c = (c = CHR 0x0A \<or> c = CHR 0x0D)"

fun matchHere :: "item list \<Rightarrow> string \<Rightarrow> bool" where
  "matchHere [] s = True"
| "matchHere (Lit c # p) [] = False"
| "matchHere (Lit c # p) (x # s) = (toLowerChar x = c \<and> matchHere p s)"
| "matchHere (AnyOpt # p) [] = matchHere p []"
| "matchHere (AnyOpt # p) (x # s) =
     ((\<not> lineTerminator x \<and> matchHere p s) \<or> matchHere p (x # s))"
| "matchHere (LitOpt c # p) [] = matchHere p []"
| "matchHere (LitOpt c # p) (x # s) =
     ((toLowerChar x = c \<and> matchHere p s) \<or> matchHere p (x # s))"
| "matchHere (AnyStar # p) [] = matchHere p []"
| "matchHere (AnyStar # p) (x # s) =
     ((\<not> lineTerminator x \<and> matchHere (AnyStar # p) s) \<or> matchHere p (x # s))"

fun regexTest :: "item list list \<Rightarrow> string \<Rightarrow> bool" where
  "regexTest alts [] = list_ex (\<lambda>p. matchHere p []) alts"
| "regexTest alts (x # s) = (list_ex (\<lambda>p. matchHere p (x # s)) alts \<or> regexTest alts s)"

definition lits :: "string \<Rightarrow> item list" where
  "lits s = map Lit s"

text \<open>\<^verbatim>\<open>PURCHASE_KEYWORDS\<close> of \<^verbatim>\<open>browser-guard.ts\<close>, alternative by alternative.\<close>

definition PURCHASE_KEYWORDS :: "item list list" where
  "PURCHASE_KEYWORDS =
    [lits ''place'' @ AnyOpt # lits ''order'',
     lits ''buy'' @ AnyOpt # lits ''now'',
     lits ''checkout'',
     lits ''complete'' @ AnyOpt # lits ''purchase'',
     lits ''confirm'' @ AnyOpt # lits ''order'',
     lits ''pay'' @ AnyOpt # lits ''now'',
     lits ''submit'' @ AnyOpt # lits ''order'',
     lits ''proceed'' @ AnyOpt # lits ''to'' @ AnyOpt # lits ''pay'',
     lits ''place'' @ AnyOpt # lits ''your'' @ AnyOpt # lits ''order'',
     lits ''purchase'',
     lits ''add'' @ AnyOpt # lits ''to'' @ AnyOpt # lits ''cart'' @ AnyOpt # lits ''and''
       @ AnyOpt # lits ''checkout'']"


section \<open>JavaScript values and tool events\<close>

datatype jsval =
    JUndefined
  | JNull
  | JBool bool
  | JNum int
  | JStr string
  | JArr "jsval list"
  | JObj "(string \<times> jsval) list"

text \<open>
  Reading an own property of a record.  The source reads properties only of values it
  has found truthy (or of the parameter record), and only the keys \<^verbatim>\<open>action\<close>,
  \<^verbatim>\<open>targetUrl\<close>, \<^verbatim>\<open>request\<close>, \<^verbatim>\<open>text\<close>, \<^verbatim>\<open>ref\<close>, \<^verbatim>\<open>key\<close> and \<^verbatim>\<open>url\<close>, none of
  which a string, number, boolean or array has: there the read yields \<^verbatim>\<open>undefined\<close>.
\<close>

definition ownProp :: "(string \<times> jsval) list \<Rightarrow> string \<Rightarrow> jsval" where
  "ownProp kvs k = (case map_of kvs k of Some v \<Rightarrow> v | None \<Rightarrow> JUndefined)"

fun getProp :: "jsval \<Rightarrow> string \<Rightarrow> jsval" where
  "getProp (JObj kvs) k = ownProp kvs k"
| "getProp v k = JUndefined"

text \<open>\<^verbatim>\<open>typeof v === "string"\<close>, with the string.\<close>

fun asString :: "jsval \<Rightarrow> string option" where
  "asString (JStr s) = Some s"
| "asString v = None"

fun truthy :: "jsval \<Rightarrow> bool" where
  "truthy JUndefined = False"
| "truthy JNull = False"
| "truthy (JBool b) = b"
| "truthy (JNum n) = (n \<noteq> 0)"
| "truthy (JStr s) = (s \<noteq> [])"
| "truthy (JArr vs) = True"
| "truthy (JObj kvs) = True"

record toolCall =
  toolName :: string
  params :: "(string \<times> jsval) list"

record toolCallDone = toolCall +
  result :: jsval

text \<open>
  \<^verbatim>\<open>typeof params.action === "string" ? params.action : ""\<close>
\<close>

definition actionOf :: "(string \<times> jsval) list \<Rightarrow> string" where
  "actionOf ps = (case asString (ownProp ps ''action'') of Some a \<Rightarrow> a | None \<Rightarrow> [])"

text \<open>
  The condition \<^verbatim>\<open>action === "navigate" && typeof params.targetUrl === "string"\<close>
  of both hooks, with the target it finds.
\<close>

definition navigateTarget :: "(string \<times> jsval) list \<Rightarrow> string option" where
  "navigateTarget ps =
     (if actionOf ps = ''navigate'' then asString (ownProp ps ''targetUrl'') else None)"

text \<open>
  The condition \<^verbatim>\<open>result && typeof result.url === "string"\<close> of the URL tracker,
  with the URL it finds.
\<close>

definition resultUrl :: "jsval \<Rightarrow> string option" where
  "resultUrl res = (if truthy res then asString (getProp res ''url'') else None)"


section \<open>Action Guard\<close>

text \<open>
  \<^verbatim>\<open>new URL(url).hostname\<close> is a primitive of the platform, not code of the repository:
  \<open>isSensitiveDomain\<close> takes it as the parameter \<open>urlHostname\<close>, which yields \<open>None\<close>
  where the constructor throws.
\<close>

definition isSensitiveDomain :: "(string \<Rightarrow> string option) \<Rightarrow> string \<Rightarrow> string list \<Rightarrow> bool" where
  "isSensitiveDomain urlHostname url domains =
     (case urlHostname url of
        Some h \<Rightarrow>
          (let hostname = toLowerCase h
           in list_ex (\<lambda>domain.
                let d = toLowerCase domain
                in hostname = d \<or> hostname = ''www.'' @ d \<or> endsWith hostname (CHR ''.'' # d))
              domains)
      | None \<Rightarrow>
          (let lower = toLowerCase url
           in list_ex (\<lambda>d. strIncludes lower (toLowerCase d)) domains))"

text \<open>
  A reading of \<^verbatim>\<open>new URL(url).hostname\<close> for running the functions on examples.  It
  reads \<^verbatim>\<open>http://\<close> or \<^verbatim>\<open>https://\<close>, then a non-empty host of ASCII letters and dots,
  then the end of the string or one of \<^verbatim>\<open>/ ? #\<close>, and yields the host in lower case;
  every other string it treats as rejected.  The theorems hold for every parser; the
  URLs of the examples are names of this plain form, or the empty string, or have no
  scheme, and the platform's parser rejects the latter two.
\<close>

definition hostChar :: "char \<Rightarrow> bool" where
  "hostChar c =
     (let n = (of_char (toLowerChar c) :: nat)
      in (97 \<le> n \<and> n \<le> 122) \<or> n = 46)"

definition hostOfRest :: "string \<Rightarrow> string option" where
  "hostOfRest r =
     (let host = takeWhile (\<lambda>c. c \<noteq> CHR ''/'' \<and> c \<noteq> CHR ''?'' \<and> c \<noteq> CHR ''#'') r
      in if host \<noteq> [] \<and> list_all hostChar host then Some (toLowerCase host) else None)"

definition simpleUrlHostname :: "string \<Rightarrow> string option" where
  "simpleUrlHostname url =
     (if startsWith (toLowerCase url) ''https://'' then hostOfRest (drop 8 url)
      else if startsWith (toLowerCase url) ''http://'' then hostOfRest (drop 7 url)
      else None)"

text \<open>\<^verbatim>\<open>extractActText\<close>: the strings among \<^verbatim>\<open>request.text\<close>, \<^verbatim>\<open>request.ref\<close>,
  \<^verbatim>\<open>request.key\<close> (when \<^verbatim>\<open>request\<close> is truthy) and \<^verbatim>\<open>params.targetUrl\<close>, joined.\<close>

definition extractActText :: "(string \<times> jsval) list \<Rightarrow> string" where
  "extractActText ps =
     (let request = ownProp ps ''request'';
          parts =
            (if truthy request
             then List.map_filter asString
                    [getProp request ''text'', getProp request ''ref'', getProp request ''key'']
             else [])
            @ List.map_filter asString [ownProp ps ''targetUrl'']
      in joinSpace parts)"

record guardResult =
  block :: bool
  blockReason :: string

definition blockResult :: guardResult where
  "blockResult =
     \<lparr>block = True,
      blockReason = joinSpace
        [''This action looks like a purchase or financial transaction on a sensitive domain.'',
         ''You must call confirm_action first to get user approval before proceeding.'',
         ''Send a screenshot and summary of what you're about to do, then wait for the user's response.'']\<rparr>"

text \<open>
  \<^verbatim>\<open>opts.getCurrentUrl?.() ?? lastKnownUrl\<close>.  The optional getter is \<open>None\<close> when
  \<^verbatim>\<open>opts\<close> has none, and \<open>Some v\<close> when it yields \<open>v\<close> (\<open>None\<close> for \<^verbatim>\<open>null\<close>).
\<close>

definition currentUrlOr :: "string option option \<Rightarrow> string option \<Rightarrow> string option" where
  "currentUrlOr getCurrentUrl lastKnownUrl =
     (case getCurrentUrl of Some (Some u) \<Rightarrow> Some u | _ \<Rightarrow> lastKnownUrl)"

text \<open>
  The handler returned by \<^verbatim>\<open>createBrowserGuardHandler\<close>.  Its closure variable
  \<^verbatim>\<open>lastKnownUrl\<close> is passed in and returned; the result is \<open>None\<close> where the handler
  returns nothing (the action passes).
\<close>

definition browserGuardHandler ::
  "(string \<Rightarrow> string option) \<Rightarrow> string list \<Rightarrow> string option option \<Rightarrow> string option
     \<Rightarrow> 'a toolCall_scheme \<Rightarrow> guardResult option \<times> string option" where
  "browserGuardHandler urlHostname sensitiveDomains getCurrentUrl lastKnownUrl event =
     (if toolName event \<noteq> ''browser'' then (None, lastKnownUrl)
      else
        let ps = params event;
            action = actionOf ps;
            lastKnownUrl' =
              (case navigateTarget ps of Some t \<Rightarrow> Some t | None \<Rightarrow> lastKnownUrl)
        in if action \<noteq> ''act'' then (None, lastKnownUrl')
           else
             (case currentUrlOr getCurrentUrl lastKnownUrl' of
                None \<Rightarrow> (None, lastKnownUrl')
              | Some currentUrl \<Rightarrow>
                  if currentUrl = [] then (None, lastKnownUrl')
                  else if \<not> isSensitiveDomain urlHostname currentUrl sensitiveDomains
                  then (None, lastKnownUrl')
                  else if \<not> regexTest PURCHASE_KEYWORDS (extractActText ps)
                  then (None, lastKnownUrl')
                  else (Some blockResult, lastKnownUrl')))"


section \<open>URL Tracker\<close>

text \<open>
  The handler of \<^verbatim>\<open>createUrlTracker\<close>, on its cell \<^verbatim>\<open>currentUrl\<close> (\<open>None\<close> for
  \<^verbatim>\<open>null\<close>); \<^verbatim>\<open>getCurrentUrl\<close> reads the cell.
\<close>

definition urlTrackerHandler :: "'a toolCallDone_scheme \<Rightarrow> string option \<Rightarrow> string option" where
  "urlTrackerHandler event currentUrl =
     (if toolName event \<noteq> ''browser'' then currentUrl
      else
        let currentUrl1 =
              (case navigateTarget (params event) of
                 Some t \<Rightarrow> Some t
               | None \<Rightarrow> currentUrl)
        in (case resultUrl (result event) of
              Some u \<Rightarrow> Some u
            | None \<Rightarrow> currentUrl1))"


section \<open>Approval Ledger\<close>

text \<open>
  The module state of \<^verbatim>\<open>confirm-action.ts\<close> and the part of the runtime it uses.
  A promise is named by a number; so is a timer.  \<^verbatim>\<open>pendingApprovals\<close> is a
  JavaScript \<^verbatim>\<open>Map\<close>: an association list in insertion order, where \<^verbatim>\<open>set\<close> on a
  present key replaces the value in place.  An entry holds the \<^verbatim>\<open>resolve\<close> function
  of its promise and the handle of its timer.
\<close>

record pendingApproval =
  pa_id :: string
  pa_resolve :: nat
  pa_timeout :: nat

text \<open>
  An armed timer holds the closure that \<^verbatim>\<open>waitForApproval\<close> gave to \<^verbatim>\<open>setTimeout\<close>:
  the delay, and the \<^verbatim>\<open>approvalId\<close> and \<^verbatim>\<open>resolve\<close> the closure captured.
\<close>

record timer =
  t_delay :: nat
  t_approvalId :: string
  t_resolve :: nat

text \<open>
  \<open>timers\<close> are the armed timers (\<^verbatim>\<open>clearTimeout\<close> and firing disarm one);
  \<open>resolverCalls\<close> lists the calls of \<^verbatim>\<open>resolve\<close> functions in order, each with the
  promise it belongs to and its argument.
\<close>

record approvals =
  pendingApprovals :: "(string \<times> pendingApproval) list"
  timers :: "nat \<rightharpoonup> timer"
  resolverCalls :: "(nat \<times> bool) list"
  nextPromise :: nat
  nextTimer :: nat

definition noApprovals :: approvals where
  "noApprovals =
     \<lparr>pendingApprovals = [], timers = Map.empty, resolverCalls = [],
      nextPromise = 0, nextTimer = 0\<rparr>"

text \<open>
  \<^verbatim>\<open>waitForApproval\<close>: a new promise whose executor arms a timer and stores the entry.
  It returns the promise.
\<close>

definition waitForApproval :: "string \<Rightarrow> nat \<Rightarrow> approvals \<Rightarrow> nat \<times> approvals" where
  "waitForApproval approvalId timeoutMs w =
     (let p = nextPromise w;
          h = nextTimer w
      in (p,
          w\<lparr>timers :=
               (timers w)(h \<mapsto> \<lparr>t_delay = timeoutMs, t_approvalId = approvalId, t_resolve = p\<rparr>),
            pendingApprovals :=
               AList.update approvalId
                 \<lparr>pa_id = approvalId, pa_resolve = p, pa_timeout = h\<rparr> (pendingApprovals w),
            nextPromise := p + 1,
            nextTimer := h + 1\<rparr>))"

text \<open>
  The timer's callback: \<^verbatim>\<open>pendingApprovals.delete(approvalId); resolve(false)\<close>.
  The runtime runs it for an armed timer only, and the timer is then spent.
\<close>

definition timerFires :: "nat \<Rightarrow> approvals \<Rightarrow> approvals" where
  "timerFires h w =
     (case timers w h of
        None \<Rightarrow> w
      | Some t \<Rightarrow>
          w\<lparr>timers := (timers w)(h := None),
            pendingApprovals := AList.delete (t_approvalId t) (pendingApprovals w),
            resolverCalls := resolverCalls w @ [(t_resolve t, False)]\<rparr>)"

text \<open>\<^verbatim>\<open>resolveApproval\<close>, with its return value.\<close>

definition resolveApproval :: "string \<Rightarrow> bool \<Rightarrow> approvals \<Rightarrow> bool \<times> approvals" where
  "resolveApproval approvalId approved w =
     (case map_of (pendingApprovals w) approvalId of
        None \<Rightarrow> (False, w)
      | Some entry \<Rightarrow>
          (True,
           w\<lparr>timers := (timers w)(pa_timeout entry := None),
             pendingApprovals := AList.delete approvalId (pendingApprovals w),
             resolverCalls := resolverCalls w @ [(pa_resolve entry, approved)]\<rparr>))"

definition listPendingApprovals :: "approvals \<Rightarrow> string list" where
  "listPendingApprovals w = map fst (pendingApprovals w)"

text \<open>
  A promise takes the argument of the first call of its \<^verbatim>\<open>resolve\<close>; later calls do
  nothing.  \<open>None\<close>: still pending.
\<close>

definition promiseValue :: "approvals \<Rightarrow> nat \<Rightarrow> bool option" where
  "promiseValue w p = map_of (resolverCalls w) p"

text \<open>
  What \<^verbatim>\<open>execute\<close> of \<^verbatim>\<open>confirm_action\<close> returns once the promise it awaits has the
  value \<open>approved\<close>: \<^verbatim>\<open>jsonResult({ approved, approvalId })\<close>.  The notice it sends before
  is best effort (a rejection is swallowed), so its outcome does not enter.
\<close>

definition confirmActionReturn :: "bool \<Rightarrow> string \<Rightarrow> jsval" where
  "confirmActionReturn approved approvalId =
     JObj [(''approved'', JBool approved), (''approvalId'', JStr approvalId)]"

text \<open>
  The states the ledger can be in: only \<^verbatim>\<open>waitForApproval\<close>, \<^verbatim>\<open>resolveApproval\<close>
  and the timers' callbacks touch it.
\<close>

inductive reachable :: "approvals \<Rightarrow> bool" where
  start: "reachable noApprovals"
| wait: "reachable w \<Longrightarrow> reachable (snd (waitForApproval approvalId timeoutMs w))"
| resolve: "reachable w \<Longrightarrow> reachable (snd (resolveApproval approvalId approved w))"
| fire: "reachable w \<Longrightarrow> reachable (timerFires h w)"

text \<open>
  What holds in every such state: an entry's timer is armed and holds the entry's key and
  resolver; an armed timer's resolver has not been called and belongs to no other armed
  timer; no resolver has been called twice; keys are distinct.
\<close>

definition ledgerInv :: "approvals \<Rightarrow> bool" where
  "ledgerInv w =
     (distinct (map fst (pendingApprovals w))
      \<and> (\<forall>k e. map_of (pendingApprovals w) k = Some e \<longrightarrow>
            (\<exists>t. timers w (pa_timeout e) = Some t \<and> t_approvalId t = k
                 \<and> t_resolve t = pa_resolve e))
      \<and> (\<forall>h t. timers w h = Some t \<longrightarrow>
            h < nextTimer w \<and> t_resolve t < nextPromise w
            \<and> t_resolve t \<notin> fst ` set (resolverCalls w))
      \<and> (\<forall>h h' t t'. timers w h = Some t \<and> timers w h' = Some t' \<and> t_resolve t = t_resolve t'
            \<longrightarrow> h = h')
      \<and> (\<forall>c \<in> set (resolverCalls w). fst c < nextPromise w)
      \<and> distinct (map fst (resolverCalls w)))"


section \<open>Credential Bridge\<close>

text \<open>
  The collaborators of \<^verbatim>\<open>vault.ts\<close> and \<^verbatim>\<open>vault-fill.ts\<close> are outside the repository
  and are parameters: the environment's service token, the outcome of \<^verbatim>\<open>createClient\<close>
  (\<open>Some\<close> message when it rejects), \<^verbatim>\<open>client.secrets.resolve\<close> (\<open>Inl\<close> message when
  it rejects), what \<^verbatim>\<open>browserSnapshot\<close> yields, and the outcome of \<^verbatim>\<open>browserAct\<close>
  typing a text into an element (\<open>Some\<close> message when it rejects).  An exception is
  modelled by its message, which is all the callers read of it.
\<close>

record node =
  ref :: string
  role :: string
  name :: string
  description :: "string option"

datatype snapshotResult =
    SnapshotThrows string
  | SnapshotNotOk
  | SnapshotAria "node list"
  | SnapshotOther

record collaborators =
  token :: "string option"
  createClientError :: "string option"
  secrets :: "string \<Rightarrow> string + string"
  snapshot :: snapshotResult
  act :: "string \<Rightarrow> string \<Rightarrow> string option"

text \<open>
  The calls an operation makes to its collaborators, in order: a secret resolved at a
  path, a page snapshot taken, a text typed into an element.
\<close>

datatype effect = Resolved string | Snapshot | Act string string

text \<open>A run: the calls made, and the message thrown (\<open>Inl\<close>) or the value returned.\<close>

type_synonym 'a run = "effect list \<times> (string + 'a)"

definition andThen :: "'a run \<Rightarrow> ('a \<Rightarrow> 'b run) \<Rightarrow> 'b run" where
  "andThen m f =
     (case m of
        (tr, Inl e) \<Rightarrow> (tr, Inl e)
      | (tr, Inr a) \<Rightarrow> (case f a of (tr', r) \<Rightarrow> (tr @ tr', r)))"

fun actsOf :: "effect list \<Rightarrow> (string \<times> string) list" where
  "actsOf [] = []"
| "actsOf (Act r t # es) = (r, t) # actsOf es"
| "actsOf (e # es) = actsOf es"

fun resolvedOf :: "effect list \<Rightarrow> string list" where
  "resolvedOf [] = []"
| "resolvedOf (Resolved p # es) = p # resolvedOf es"
| "resolvedOf (e # es) = resolvedOf es"

definition tokenMissing :: string where
  "tokenMissing = ''OP_SERVICE_ACCOUNT_TOKEN is not set. A 1Password service account token is required for vault operations.''"

text \<open>\<^verbatim>\<open>getClient\<close>: the client is all the callers need, so success is \<open>()\<close>.\<close>

definition getClient :: "collaborators \<Rightarrow> unit run" where
  "getClient c =
     (case token c of
        None \<Rightarrow> ([], Inl tokenMissing)
      | Some tok \<Rightarrow>
          if tok = [] then ([], Inl tokenMissing)
          else (case createClientError c of Some m \<Rightarrow> ([], Inl m) | None \<Rightarrow> ([], Inr ())))"

definition resolveSecret :: "collaborators \<Rightarrow> string \<Rightarrow> string run" where
  "resolveSecret c path = ([Resolved path], secrets c path)"

definition browserSnapshot :: "collaborators \<Rightarrow> snapshotResult run" where
  "browserSnapshot c =
     (case snapshot c of
        SnapshotThrows m \<Rightarrow> ([Snapshot], Inl m)
      | s \<Rightarrow> ([Snapshot], Inr s))"

text \<open>\<^verbatim>\<open>fillField\<close>: \<^verbatim>\<open>browserAct\<close> with kind \<^verbatim>\<open>type\<close> and \<^verbatim>\<open>submit: false\<close>.\<close>

definition fillField :: "collaborators \<Rightarrow> string \<Rightarrow> string \<Rightarrow> unit run" where
  "fillField c r v =
     ([Act r v], case act c r v of Some m \<Rightarrow> Inl m | None \<Rightarrow> Inr ())"

record vaultCredentials =
  username :: string
  password :: string
  totp :: "string option"

text \<open>The base path of \<^verbatim>\<open>vaultResolve\<close> and of \<^verbatim>\<open>vault_fill\<close>.\<close>

definition basePathOf :: "string \<Rightarrow> string option \<Rightarrow> string" where
  "basePathOf itemRef vaultPrefix =
     (if startsWith itemRef ''op://'' then itemRef
      else ''op://'' @ (case vaultPrefix of Some p \<Rightarrow> p | None \<Rightarrow> ''Private/'') @ itemRef)"

definition vaultResolve :: "string \<Rightarrow> string option \<Rightarrow> collaborators \<Rightarrow> vaultCredentials run" where
  "vaultResolve itemRef vaultPrefix c =
     andThen (getClient c) (\<lambda>client.
       let basePath = basePathOf itemRef vaultPrefix
       in andThen (resolveSecret c (basePath @ ''/username'')) (\<lambda>u.
          andThen (resolveSecret c (basePath @ ''/password'')) (\<lambda>p.
            ([Resolved (basePath @ ''/one-time password'')],
             Inr \<lparr>username = u, password = p,
                  totp = (case secrets c (basePath @ ''/one-time password'') of
                            Inr v \<Rightarrow> Some v
                          | Inl m \<Rightarrow> None)\<rparr>))))"

text \<open>The patterns of the Field Resolver, and the text they are tested on.\<close>

definition emailPattern :: "item list list" where
  "emailPattern =
     [lits ''email'', lits ''username'', lits ''login'',
      lits ''user'' @ AnyStar # lits ''name'',
      Lit CHR ''e'' # LitOpt CHR ''-'' # lits ''mail'']"

definition passwordPattern :: "item list list" where
  "passwordPattern = [lits ''password'', lits ''passwd'', lits ''pass'']"

definition totpPattern :: "item list list" where
  "totpPattern =
     [lits ''code'', lits ''otp'', lits ''totp'', lits ''verify'', lits ''authenticat'',
      lits ''2fa'', lits ''mfa'', lits ''one'' @ AnyOpt # lits ''time'']"

definition labelMatches :: "item list list \<Rightarrow> node \<Rightarrow> bool" where
  "labelMatches pat n =
     (role n = ''textbox''
      \<and> regexTest pat (name n @ (case description n of Some d \<Rightarrow> d | None \<Rightarrow> [])))"

text \<open>\<^verbatim>\<open>snap.format === "aria" ? snap.nodes : []\<close>, for a snapshot that is \<^verbatim>\<open>ok\<close>.\<close>

definition nodesOf :: "snapshotResult \<Rightarrow> node list" where
  "nodesOf s = (case s of SnapshotAria ns \<Rightarrow> ns | _ \<Rightarrow> [])"

definition filledResult :: "bool \<Rightarrow> jsval" where
  "filledResult b = JObj [(''filled'', JBool b)]"

text \<open>
  An optional string the source tests for truth (\<^verbatim>\<open>usernameRef && passwordRef\<close>,
  \<^verbatim>\<open>!creds.totp\<close>, \<^verbatim>\<open>totpRef\<close>): it counts when present and not the empty string.
\<close>

definition truthyString :: "string option \<Rightarrow> string option" where
  "truthyString r = (case r of Some s \<Rightarrow> (if s = [] then None else Some s) | None \<Rightarrow> None)"

text \<open>\<^verbatim>\<open>fieldMap?.username\<close> and \<^verbatim>\<open>fieldMap?.password\<close>.\<close>

definition fieldRef :: "(string \<times> string) list option \<Rightarrow> string \<Rightarrow> string option" where
  "fieldRef fieldMap k = (case fieldMap of None \<Rightarrow> None | Some m \<Rightarrow> map_of m k)"

text \<open>The two injections both branches of \<^verbatim>\<open>vaultInject\<close> end with.\<close>

definition fillBoth ::
  "collaborators \<Rightarrow> string \<Rightarrow> string \<Rightarrow> vaultCredentials \<Rightarrow> jsval run" where
  "fillBoth c usernameRef passwordRef creds =
     andThen (fillField c usernameRef (username creds)) (\<lambda>u1.
     andThen (fillField c passwordRef (password creds)) (\<lambda>u2.
       ([], Inr (filledResult True))))"

definition vaultInject ::
  "string \<Rightarrow> (string \<times> string) list option \<Rightarrow> string option \<Rightarrow> collaborators \<Rightarrow> jsval run" where
  "vaultInject itemRef fieldMap vaultPrefix c =
     andThen (vaultResolve itemRef vaultPrefix c) (\<lambda>creds.
       case (truthyString (fieldRef fieldMap ''username''),
             truthyString (fieldRef fieldMap ''password'')) of
         (Some usernameRef, Some passwordRef) \<Rightarrow> fillBoth c usernameRef passwordRef creds
       | _ \<Rightarrow>
           andThen (browserSnapshot c) (\<lambda>snap.
             if snap = SnapshotNotOk
             then ([], Inl ''Failed to take page snapshot for credential injection'')
             else
               let nodes = nodesOf snap;
                   emailNode = find (labelMatches emailPattern) nodes;
                   passwordNode = find (labelMatches passwordPattern) nodes
               in (case emailNode of
                     None \<Rightarrow>
                       ([], Inl ''Could not auto-detect username/email input field on page'')
                   | Some en \<Rightarrow>
                       (case passwordNode of
                          None \<Rightarrow>
                            ([], Inl ''Could not auto-detect password input field on page'')
                        | Some pn \<Rightarrow> fillBoth c (ref en) (ref pn) creds))))"

definition vaultInjectTotp ::
  "string \<Rightarrow> string option \<Rightarrow> string option \<Rightarrow> collaborators \<Rightarrow> jsval run" where
  "vaultInjectTotp itemRef totpRef vaultPrefix c =
     andThen (vaultResolve itemRef vaultPrefix c) (\<lambda>creds.
       case truthyString (totp creds) of
         None \<Rightarrow> ([], Inr (filledResult False))
       | Some code \<Rightarrow>
           (case truthyString totpRef of
              Some r \<Rightarrow>
                andThen (fillField c r code) (\<lambda>u1. ([], Inr (filledResult True)))
            | None \<Rightarrow>
                andThen (browserSnapshot c) (\<lambda>snap.
                  if snap = SnapshotNotOk
                  then ([], Inl ''Failed to take page snapshot for TOTP injection'')
                  else
                    (case find (labelMatches totpPattern) (nodesOf snap) of
                       None \<Rightarrow>
                         ([], Inl ''Could not auto-detect TOTP/verification code input field on page'')
                     | Some codeNode \<Rightarrow>
                         andThen (fillField c (ref codeNode) code) (\<lambda>u1.
                           ([], Inr (filledResult True)))))))"


section \<open>Vault Fill\<close>

definition FIELD_ALIASES :: "(string \<times> string) list" where
  "FIELD_ALIASES =
     [(''credit card number'', ''credit card number''),
      (''card number'', ''credit card number''),
      (''ccn'', ''credit card number''),
      (''cvv'', ''verification number''),
      (''cvc'', ''verification number''),
      (''security code'', ''verification number''),
      (''expiration date'', ''expiry date''),
      (''exp date'', ''expiry date''),
      (''expiry'', ''expiry date''),
      (''card expiry'', ''expiry date''),
      (''cardholder name'', ''cardholder name''),
      (''name on card'', ''cardholder name''),
      (''zip'', ''zip or postal code''),
      (''postal code'', ''zip or postal code''),
      (''zip code'', ''zip or postal code'')]"

text \<open>
  \<^verbatim>\<open>resolveFieldName\<close>: \<^verbatim>\<open>FIELD_ALIASES[name.toLowerCase()] ?? name\<close>.  The table is
  a plain object, so the two lower-case names every object inherits are found in it
  too: \<^verbatim>\<open>constructor\<close> yields the function \<^verbatim>\<open>Object\<close> and \<^verbatim>\<open>__proto__\<close> yields the
  prototype object; neither is nullish, and the template string of the path turns them
  into the texts below.
\<close>

definition resolveFieldName :: "string \<Rightarrow> string" where
  "resolveFieldName n =
     (let k = toLowerCase n
      in if k = ''constructor'' then ''function Object() { [native code] }''
         else if k = ''__proto__'' then ''[object Object]''
         else (case map_of FIELD_ALIASES k of Some v \<Rightarrow> v | None \<Rightarrow> n))"

text \<open>The message pushed to \<^verbatim>\<open>errors\<close> for a field.\<close>

definition fieldError :: "string \<Rightarrow> string \<Rightarrow> string \<Rightarrow> string" where
  "fieldError fieldName r m =
     ''Field \"'' @ fieldName @ ''\" (ref '' @ r @ ''): '' @ m"

text \<open>
  The loop of \<^verbatim>\<open>execute\<close> over \<^verbatim>\<open>Object.entries(fields)\<close>, from the entries still to
  do, \<^verbatim>\<open>filledCount\<close> and \<^verbatim>\<open>errors\<close>: the calls made, and the final \<^verbatim>\<open>filledCount\<close>
  and \<^verbatim>\<open>errors\<close>.
\<close>

fun fillEntries ::
  "collaborators \<Rightarrow> string \<Rightarrow> (string \<times> string) list \<Rightarrow> nat \<Rightarrow> string list
     \<Rightarrow> effect list \<times> nat \<times> string list" where
  "fillEntries c basePath [] filledCount errors = ([], filledCount, errors)"
| "fillEntries c basePath ((r, fieldName) # rest) filledCount errors =
     (let path = basePath @ ''/'' @ resolveFieldName fieldName
      in case secrets c path of
           Inl m \<Rightarrow>
             (case fillEntries c basePath rest filledCount (errors @ [fieldError fieldName r m])
              of (tr, out) \<Rightarrow> (Resolved path # tr, out))
         | Inr v \<Rightarrow>
             (case act c r v of
                Some m \<Rightarrow>
                  (case fillEntries c basePath rest filledCount
                          (errors @ [fieldError fieldName r m])
                   of (tr, out) \<Rightarrow> (Resolved path # Act r v # tr, out))
              | None \<Rightarrow>
                  (case fillEntries c basePath rest (filledCount + 1) errors
                   of (tr, out) \<Rightarrow> (Resolved path # Act r v # tr, out))))"

definition fillSummary :: "nat \<Rightarrow> nat \<Rightarrow> string list \<Rightarrow> jsval" where
  "fillSummary filledCount totalCount errors =
     JObj ([(''success'', JBool (errors = [])),
            (''filled'', JNum (int filledCount)),
            (''total'', JNum (int totalCount))]
           @ (if errors \<noteq> [] then [(''errors'', JArr (map JStr errors))] else []))"

definition failure :: "string \<Rightarrow> jsval" where
  "failure m = JObj [(''success'', JBool False), (''error'', JStr m)]"

definition fieldsRequired :: string where
  "fieldsRequired =
     ''fields is required and must be a non-empty object mapping refs to vault field names''"

text \<open>
  \<^verbatim>\<open>execute\<close> of \<^verbatim>\<open>vault_fill\<close>, from the string \<^verbatim>\<open>vaultItem\<close>, the entries of
  \<^verbatim>\<open>fields\<close> in the order of \<^verbatim>\<open>Object.entries\<close> (\<open>None\<close> when \<^verbatim>\<open>fields\<close> is missing or
  not an object) and the configured prefix.  It never throws: the calls made and the
  result object.
\<close>

definition vaultFill ::
  "string \<Rightarrow> (string \<times> string) list option \<Rightarrow> string option \<Rightarrow> collaborators
     \<Rightarrow> effect list \<times> jsval" where
  "vaultFill vaultItem fieldEntries vaultPrefix c =
     (case fieldEntries of
        None \<Rightarrow>
          ([], failure fieldsRequired)
      | Some entries \<Rightarrow>
          if entries = []
          then ([], failure fieldsRequired)
          else
            (case getClient c of
               (tr, Inl m) \<Rightarrow> (tr, failure m)
             | (tr, Inr client) \<Rightarrow>
                 (case fillEntries c (basePathOf vaultItem vaultPrefix) entries 0 [] of
                    (tr', filledCount, errors) \<Rightarrow>
                      (tr @ tr', fillSummary filledCount (length entries) errors))))"



text \<open>
  A run that aborts at the first failed injection: it injects at most \<open>k\<close> fields, every
  injection but the last succeeded, and if the last one failed its message is what the run
  throws.
\<close>

definition abortsAtFailure :: "collaborators \<Rightarrow> nat \<Rightarrow> 'a run \<Rightarrow> bool" where
  "abortsAtFailure c k run =
     (let acts = actsOf (fst run)
      in length acts \<le> k
         \<and> list_all (\<lambda>(r, t). act c r t = None) (butlast acts)
         \<and> (acts \<noteq> [] \<longrightarrow>
              (case act c (fst (last acts)) (snd (last acts)) of
                 Some m \<Rightarrow> snd run = Inl m
               | None \<Rightarrow> True)))"

text \<open>
  One entry \<open>(ref, fieldName)\<close> of \<^verbatim>\<open>fields\<close> taken alone: the path of its secret, the
  calls it needs, and the message it adds to \<^verbatim>\<open>errors\<close> if it fails.
\<close>

definition fieldPath :: "string \<Rightarrow> string \<times> string \<Rightarrow> string" where
  "fieldPath basePath e = basePath @ ''/'' @ resolveFieldName (snd e)"

definition fieldCalls :: "collaborators \<Rightarrow> string \<Rightarrow> string \<times> string \<Rightarrow> effect list" where
  "fieldCalls c basePath e =
     Resolved (fieldPath basePath e)
       # (case secrets c (fieldPath basePath e) of
            Inl m \<Rightarrow> []
          | Inr v \<Rightarrow> [Act (fst e) v])"

definition fieldFailure :: "collaborators \<Rightarrow> string \<Rightarrow> string \<times> string \<Rightarrow> string option" where
  "fieldFailure c basePath e =
     (case secrets c (fieldPath basePath e) of
        Inl m \<Rightarrow> Some (fieldError (snd e) (fst e) m)
      | Inr v \<Rightarrow>
          (case act c (fst e) v of
             Some m \<Rightarrow> Some (fieldError (snd e) (fst e) m)
           | None \<Rightarrow> None))"


section \<open>Example inputs\<close>

text \<open>Browser actions as the agent issues them, and after-call events of the tracker.\<close>

definition placeOrderClick :: toolCall where
  "placeOrderClick =
     \<lparr>toolName = ''browser'',
      params = [(''action'', JStr ''act''),
                (''request'', JObj [(''kind'', JStr ''click''), (''ref'', JStr ''e12''),
                                    (''text'', JStr ''Place your order'')])]\<rparr>"

definition wishlistClick :: toolCall where
  "wishlistClick =
     \<lparr>toolName = ''browser'',
      params = [(''action'', JStr ''act''),
                (''request'', JObj [(''kind'', JStr ''click''), (''ref'', JStr ''e7''),
                                    (''text'', JStr ''Add to wishlist'')])]\<rparr>"

definition navigateToCheckout :: toolCall where
  "navigateToCheckout =
     \<lparr>toolName = ''browser'',
      params = [(''action'', JStr ''navigate''),
                (''targetUrl'', JStr ''https://shop.test/checkout'')]\<rparr>"

definition navigateDone :: toolCallDone where
  "navigateDone =
     \<lparr>toolName = ''browser'',
      params = [(''action'', JStr ''navigate''), (''targetUrl'', JStr ''https://shop.test/'')],
      result = JObj [(''ok'', JBool True)]\<rparr>"

definition submitDone :: toolCallDone where
  "submitDone =
     \<lparr>toolName = ''browser'',
      params = [(''action'', JStr ''act''),
                (''request'', JObj [(''kind'', JStr ''click''), (''ref'', JStr ''e3'')])],
      result = JObj [(''ok'', JBool True), (''url'', JStr ''https://shop.test/checkout'')]\<rparr>"

definition snapshotDone :: toolCallDone where
  "snapshotDone =
     \<lparr>toolName = ''browser'',
      params = [(''action'', JStr ''snapshot'')],
      result = JObj [(''ok'', JBool True), (''format'', JStr ''aria'')]\<rparr>"

definition fetchDone :: toolCallDone where
  "fetchDone =
     \<lparr>toolName = ''web_fetch'',
      params = [(''url'', JStr ''https://shop.test/cart'')],
      result = JObj [(''status'', JNum 200), (''url'', JStr ''https://shop.test/cart'')]\<rparr>"

text \<open>The ledger after one call \<^verbatim>\<open>waitForApproval("ab12cd34", 300000)\<close>.\<close>

definition oneWaiting :: approvals where
  "oneWaiting = snd (waitForApproval ''ab12cd34'' 300000 noApprovals)"

text \<open>
  Collaborators for a login page of a vault item \<^verbatim>\<open>amazon\<close>: the vault holds a user name,
  a password and a one-time password; the page has an e-mail box, a password box and a
  button; the browser accepts every text.
\<close>

definition loginPage :: collaborators where
  "loginPage =
     \<lparr>token = Some ''ops_token'',
      createClientError = None,
      secrets = (\<lambda>path.
        if path = ''op://Private/amazon/username'' then Inr ''alice@example.org''
        else if path = ''op://Private/amazon/password'' then Inr ''hunter2''
        else if path = ''op://Private/amazon/one-time password'' then Inr ''123456''
        else Inl ''secret reference not found''),
      snapshot = SnapshotAria
        [\<lparr>ref = ''e1'', role = ''textbox'', name = ''Email address'', description = None\<rparr>,
         \<lparr>ref = ''e2'', role = ''textbox'', name = ''Password'', description = None\<rparr>,
         \<lparr>ref = ''e3'', role = ''button'', name = ''Sign in'', description = None\<rparr>],
      act = (\<lambda>r t. None)\<rparr>"

text \<open>The same, with a page that has only the button.\<close>

definition buttonPage :: collaborators where
  "buttonPage =
     loginPage\<lparr>snapshot := SnapshotAria
        [\<lparr>ref = ''e3'', role = ''button'', name = ''Sign in'', description = None\<rparr>]\<rparr>"



text \<open>The same as \<open>loginPage\<close>, with a browser that cannot type into \<^verbatim>\<open>e1\<close>.\<close>

definition e1Missing :: collaborators where
  "e1Missing =
     loginPage\<lparr>act := (\<lambda>r t. if r = ''e1'' then Some ''element e1 not found'' else None)\<rparr>"





section \<open>Facts about strings\<close>

lemma toLowerChar_unchanged:
  "\<not> ((65 \<le> (of_char c :: nat) \<and> (of_char c :: nat) \<le> 90)
      \<or> (192 \<le> (of_char c :: nat) \<and> (of_char c :: nat) \<le> 222 \<and> (of_char c :: nat) \<noteq> 215))
   \<Longrightarrow> toLowerChar c = c"
  unfolding toLowerChar_def Let_def by (rule if_not_P)

lemma toLowerChar_changed:
  "(65 \<le> (of_char c :: nat) \<and> (of_char c :: nat) \<le> 90)
      \<or> (192 \<le> (of_char c :: nat) \<and> (of_char c :: nat) \<le> 222 \<and> (of_char c :: nat) \<noteq> 215)
   \<Longrightarrow> toLowerChar c = char_of ((of_char c :: nat) + 32)"
  unfolding toLowerChar_def Let_def by (rule if_P)

text \<open>Only the dot becomes a dot in lower case.\<close>

lemma toLowerChar_dot: "(toLowerChar c = CHR ''.'') = (c = CHR ''.'')"
proof
  assume low: "toLowerChar c = CHR ''.''"
  show "c = CHR ''.''"
  proof (cases "(65 \<le> (of_char c :: nat) \<and> (of_char c :: nat) \<le> 90)
      \<or> (192 \<le> (of_char c :: nat) \<and> (of_char c :: nat) \<le> 222 \<and> (of_char c :: nat) \<noteq> 215)")
    case True
    then have "toLowerChar c = char_of ((of_char c :: nat) + 32)"
      by (rule toLowerChar_changed)
    with low have "(of_char (char_of ((of_char c :: nat) + 32)) :: nat) = of_char (CHR ''.'')"
      by simp
    then have "((of_char c :: nat) + 32) mod 256 = 46" by simp
    with True show ?thesis by auto
  next
    case False
    then have "toLowerChar c = c" by (rule toLowerChar_unchanged)
    with low show ?thesis by simp
  qed
next
  assume "c = CHR ''.''"
  then show "toLowerChar c = CHR ''.''" by (simp add: toLowerChar_def)
qed

lemma toLowerCase_append: "toLowerCase (a @ b) = toLowerCase a @ toLowerCase b"
  by (simp add: toLowerCase_def)

lemma toLowerCase_www: "toLowerCase ''www.'' = ''www.''"
  by code_simp

lemma last_toLowerCase: "p \<noteq> [] \<Longrightarrow> last (toLowerCase p) = toLowerChar (last p)"
  by (simp add: toLowerCase_def last_map)

lemma strIncludes_sublist: "strIncludes s t = sublist t s"
  by (induction s) (auto simp: sublist_Cons_right)


section \<open>Domain classification\<close>

text \<open>
  A host that ends in the letters of a domain, without a dot before them, matches none
  of the three tests for that domain.
\<close>

lemma glued_host_no_match:
  assumes "p \<noteq> []" and "last p \<noteq> CHR ''.''"
  shows "\<not> (let hostname = toLowerCase (p @ d); d' = toLowerCase d
             in hostname = d' \<or> hostname = ''www.'' @ d' \<or> endsWith hostname (CHR ''.'' # d'))"
proof -
  let ?lp = "toLowerCase p" and ?ld = "toLowerCase d"
  have lp1: "?lp \<noteq> []" using assms by (simp add: toLowerCase_def)
  have lp2: "last ?lp \<noteq> CHR ''.''"
    using assms by (simp add: last_toLowerCase toLowerChar_dot)
  have a: "?lp @ ?ld \<noteq> ?ld" using lp1 by simp
  have b: "?lp @ ?ld \<noteq> ''www.'' @ ?ld"
  proof
    assume "?lp @ ?ld = ''www.'' @ ?ld"
    then have "?lp = ''www.''" by simp
    with lp2 show False by simp
  qed
  have c: "\<not> suffix (CHR ''.'' # ?ld) (?lp @ ?ld)"
  proof
    assume "suffix (CHR ''.'' # ?ld) (?lp @ ?ld)"
    then obtain q where "?lp @ ?ld = q @ CHR ''.'' # ?ld" by (auto simp: suffix_def)
    then have "?lp @ ?ld = (q @ ''.'') @ ?ld" by simp
    then have "?lp = q @ ''.''" by (simp only: append_same_eq)
    with lp2 show False by simp
  qed
  show ?thesis using a b c by (simp add: Let_def toLowerCase_append endsWith_def)
qed

text \<open>
  C5.  For a URL the parser accepts, with host \<open>h\<close>: a host that equals a configured
  domain \<open>d\<close>, equals \<open>www.d\<close> or ends with \<open>.d\<close> makes the URL sensitive; the URL is
  sensitive exactly when, in lower case, \<open>h\<close> passes one of these three tests for some
  configured domain, and is not sensitive otherwise; a host that only ends in the
  letters of \<open>d\<close> (as \<open>notd.com\<close> does for \<open>d.com\<close>) is not sensitive for \<open>d\<close> and gets
  nothing from \<open>d\<close> among other domains.  For a URL the parser rejects the answer is
  whether the URL, in lower case, contains a configured domain in lower case.  The
  function is total: it has no failing branch.
\<close>

theorem isSensitiveDomain_classifies:
  "(d \<in> set domains \<and> urlHostname url = Some h
      \<and> (h = d \<or> h = ''www.'' @ d \<or> endsWith h (CHR ''.'' # d))
      \<longrightarrow> isSensitiveDomain urlHostname url domains)
   \<and> (urlHostname url = Some h
      \<longrightarrow> isSensitiveDomain urlHostname url domains
          = (\<exists>d \<in> set domains.
               toLowerCase h = toLowerCase d
               \<or> toLowerCase h = ''www.'' @ toLowerCase d
               \<or> endsWith (toLowerCase h) (CHR ''.'' # toLowerCase d)))
   \<and> (urlHostname url = Some (p @ d) \<and> p \<noteq> [] \<and> last p \<noteq> CHR ''.''
      \<longrightarrow> \<not> isSensitiveDomain urlHostname url [d]
          \<and> isSensitiveDomain urlHostname url (d # domains)
              = isSensitiveDomain urlHostname url domains)
   \<and> (urlHostname url = None
      \<longrightarrow> isSensitiveDomain urlHostname url domains
          = (\<exists>d \<in> set domains. sublist (toLowerCase d) (toLowerCase url)))"
proof (intro conjI impI)
  assume h: "d \<in> set domains \<and> urlHostname url = Some h
      \<and> (h = d \<or> h = ''www.'' @ d \<or> endsWith h (CHR ''.'' # d))"
  then have "toLowerCase h = toLowerCase d \<or> toLowerCase h = ''www.'' @ toLowerCase d
     \<or> endsWith (toLowerCase h) (CHR ''.'' # toLowerCase d)"
    using toLowerCase_www by (auto simp: endsWith_def suffix_def toLowerCase_def)
  with h show "isSensitiveDomain urlHostname url domains"
    by (auto simp: isSensitiveDomain_def Let_def list_ex_iff)
next
  assume "urlHostname url = Some h"
  then show "isSensitiveDomain urlHostname url domains
      = (\<exists>d \<in> set domains.
           toLowerCase h = toLowerCase d
           \<or> toLowerCase h = ''www.'' @ toLowerCase d
           \<or> endsWith (toLowerCase h) (CHR ''.'' # toLowerCase d))"
    by (simp add: isSensitiveDomain_def Let_def list_ex_iff)
next
  assume "urlHostname url = Some (p @ d) \<and> p \<noteq> [] \<and> last p \<noteq> CHR ''.''"
  then show "\<not> isSensitiveDomain urlHostname url [d]"
    using glued_host_no_match[of p d] by (simp add: isSensitiveDomain_def Let_def)
next
  assume "urlHostname url = Some (p @ d) \<and> p \<noteq> [] \<and> last p \<noteq> CHR ''.''"
  then show "isSensitiveDomain urlHostname url (d # domains)
      = isSensitiveDomain urlHostname url domains"
    using glued_host_no_match[of p d] by (simp add: isSensitiveDomain_def Let_def)
next
  assume "urlHostname url = None"
  then show "isSensitiveDomain urlHostname url domains
          = (\<exists>d \<in> set domains. sublist (toLowerCase d) (toLowerCase url))"
    by (simp add: isSensitiveDomain_def Let_def list_ex_iff strIncludes_sublist)
qed

theorem isSensitiveDomain_classifies_witness:
  "isSensitiveDomain simpleUrlHostname ''https://shop.test/checkout'' [''paypal.com'', ''shop.test'']
   \<and> isSensitiveDomain simpleUrlHostname ''https://www.shop.test/'' [''paypal.com'', ''shop.test'']
   \<and> isSensitiveDomain simpleUrlHostname ''https://pay.shop.test/cart'' [''paypal.com'', ''shop.test'']
   \<and> \<not> isSensitiveDomain simpleUrlHostname ''https://notshop.test/'' [''shop.test'']
   \<and> \<not> isSensitiveDomain simpleUrlHostname ''https://example.org/'' [''paypal.com'', ''shop.test'']
   \<and> simpleUrlHostname ''PayPal.com/checkout'' = None
   \<and> isSensitiveDomain simpleUrlHostname ''PayPal.com/checkout'' [''paypal.com'', ''shop.test'']"
proof -
  let ?ds = "[''paypal.com'', ''shop.test'']"
  have d: "''shop.test'' \<in> set ?ds" by simp
  have h1: "simpleUrlHostname ''https://shop.test/checkout'' = Some ''shop.test''" by code_simp
  have h2: "simpleUrlHostname ''https://www.shop.test/'' = Some (''www.'' @ ''shop.test'')"
    by code_simp
  have h3: "simpleUrlHostname ''https://pay.shop.test/cart'' = Some ''pay.shop.test''"
    by code_simp
  have e3: "endsWith ''pay.shop.test'' (CHR ''.'' # ''shop.test'')" by code_simp
  have h4: "simpleUrlHostname ''https://notshop.test/'' = Some (''not'' @ ''shop.test'')"
    by code_simp
  have p4: "''not'' \<noteq> []" "last ''not'' \<noteq> CHR ''.''" by simp_all
  have h5: "simpleUrlHostname ''PayPal.com/checkout'' = None" by code_simp
  have s5: "sublist (toLowerCase ''paypal.com'') (toLowerCase ''PayPal.com/checkout'')"
  proof -
    have "toLowerCase ''PayPal.com/checkout'' = [] @ toLowerCase ''paypal.com'' @ ''/checkout''"
      by code_simp
    then show ?thesis unfolding sublist_def by blast
  qed
  have h6: "simpleUrlHostname ''https://example.org/'' = Some ''example.org''" by code_simp
  have n6: "\<not> (\<exists>d \<in> set ?ds.
       toLowerCase ''example.org'' = toLowerCase d
       \<or> toLowerCase ''example.org'' = ''www.'' @ toLowerCase d
       \<or> endsWith (toLowerCase ''example.org'') (CHR ''.'' # toLowerCase d))"
  proof -
    have "\<not> list_ex (\<lambda>d.
       toLowerCase ''example.org'' = toLowerCase d
       \<or> toLowerCase ''example.org'' = ''www.'' @ toLowerCase d
       \<or> endsWith (toLowerCase ''example.org'') (CHR ''.'' # toLowerCase d)) ?ds"
      by code_simp
    then show ?thesis unfolding list_ex_iff .
  qed
  have c1: "isSensitiveDomain simpleUrlHostname ''https://shop.test/checkout'' ?ds"
    using isSensitiveDomain_classifies
      [where d = "''shop.test''" and domains = ?ds and urlHostname = simpleUrlHostname
        and url = "''https://shop.test/checkout''" and h = "''shop.test''"]
      d h1 by simp
  have c2: "isSensitiveDomain simpleUrlHostname ''https://www.shop.test/'' ?ds"
    using isSensitiveDomain_classifies
      [where d = "''shop.test''" and domains = ?ds and urlHostname = simpleUrlHostname
        and url = "''https://www.shop.test/''" and h = "''www.'' @ ''shop.test''"]
      d h2 by blast
  have c3: "isSensitiveDomain simpleUrlHostname ''https://pay.shop.test/cart'' ?ds"
    using isSensitiveDomain_classifies
      [where d = "''shop.test''" and domains = ?ds and urlHostname = simpleUrlHostname
        and url = "''https://pay.shop.test/cart''" and h = "''pay.shop.test''"]
      d h3 e3 by blast
  have c4: "\<not> isSensitiveDomain simpleUrlHostname ''https://notshop.test/'' [''shop.test'']"
    using isSensitiveDomain_classifies
      [where d = "''shop.test''" and urlHostname = simpleUrlHostname
        and url = "''https://notshop.test/''" and p = "''not''"]
      h4 p4 by blast
  have c5: "isSensitiveDomain simpleUrlHostname ''PayPal.com/checkout'' ?ds"
    using isSensitiveDomain_classifies
      [where domains = ?ds and urlHostname = simpleUrlHostname
        and url = "''PayPal.com/checkout''"]
      h5 s5 by auto
  have c6: "\<not> isSensitiveDomain simpleUrlHostname ''https://example.org/'' ?ds"
    using isSensitiveDomain_classifies
      [where domains = ?ds and urlHostname = simpleUrlHostname
        and url = "''https://example.org/''" and h = "''example.org''"]
      h6 n6 by blast
  show ?thesis using c1 c2 c3 c4 c6 h5 c5 by blast
qed



section \<open>Action Guard\<close>

text \<open>
  C10.  An \<^verbatim>\<open>act\<close> action that arrives while the getter yields \<^verbatim>\<open>null\<close> (or there is
  no getter) and no navigation has set \<^verbatim>\<open>lastKnownUrl\<close> passes, whatever its text and
  whatever domains are configured.
\<close>

theorem guard_passes_before_any_url:
  assumes "actionOf (params event) = ''act''"
    and "getCurrentUrl = None \<or> getCurrentUrl = Some None"
  shows "fst (browserGuardHandler urlHostname domains getCurrentUrl None event) = None"
  using assms
  by (auto simp: browserGuardHandler_def Let_def currentUrlOr_def navigateTarget_def)

theorem guard_passes_before_any_url_witness:
  "actionOf (params placeOrderClick) = ''act''
   \<and> regexTest PURCHASE_KEYWORDS (extractActText (params placeOrderClick))
   \<and> fst (browserGuardHandler simpleUrlHostname [''shop.test''] (Some None) None
            placeOrderClick) = None"
proof -
  have a: "actionOf (params placeOrderClick) = ''act''" by code_simp
  have b: "regexTest PURCHASE_KEYWORDS (extractActText (params placeOrderClick))" by code_simp
  show ?thesis
    using a b guard_passes_before_any_url
      [OF a, of "Some None" simpleUrlHostname "[''shop.test'']"]
    by simp
qed

text \<open>
  C1, as the code has it.  For a call of the browser tool while there is a current URL
  (the getter's value, or \<^verbatim>\<open>lastKnownUrl\<close> when the getter yields \<^verbatim>\<open>null\<close>), the guard
  blocks exactly when the action is \<^verbatim>\<open>act\<close>, the URL is not the empty string and is on
  a sensitive domain, and the extracted text matches a purchase keyword; every other
  combination, and every action other than \<^verbatim>\<open>act\<close>, passes.
\<close>

theorem guard_blocks_iff:
  assumes "toolName event = ''browser''"
    and "currentUrlOr getCurrentUrl lastKnownUrl = Some u"
  shows "fst (browserGuardHandler urlHostname domains getCurrentUrl lastKnownUrl event) =
     (if actionOf (params event) = ''act'' \<and> u \<noteq> [] \<and> isSensitiveDomain urlHostname u domains
         \<and> regexTest PURCHASE_KEYWORDS (extractActText (params event))
      then Some blockResult else None)"
  using assms by (auto simp: browserGuardHandler_def Let_def navigateTarget_def)

theorem guard_blocks_iff_witness:
  "fst (browserGuardHandler simpleUrlHostname [''shop.test'']
         (Some (Some ''https://shop.test/checkout'')) None placeOrderClick) = Some blockResult
   \<and> fst (browserGuardHandler simpleUrlHostname [''shop.test'']
         (Some (Some ''https://shop.test/checkout'')) None wishlistClick) = None
   \<and> fst (browserGuardHandler simpleUrlHostname [''shop.test'']
         (Some (Some ''https://example.org/checkout'')) None placeOrderClick) = None
   \<and> fst (browserGuardHandler simpleUrlHostname [''shop.test'']
         (Some (Some ''https://example.org/checkout'')) None wishlistClick) = None
   \<and> fst (browserGuardHandler simpleUrlHostname [''shop.test'']
         (Some (Some ''https://shop.test/cart'')) None navigateToCheckout) = None"
proof -
  have t: "toolName placeOrderClick = ''browser''" "toolName wishlistClick = ''browser''"
    "toolName navigateToCheckout = ''browser''"
    by (simp_all add: placeOrderClick_def wishlistClick_def navigateToCheckout_def)
  have u: "\<And>u l. currentUrlOr (Some (Some u)) l = Some u" by (simp add: currentUrlOr_def)
  have a: "actionOf (params placeOrderClick) = ''act''"
    "actionOf (params wishlistClick) = ''act''"
    "actionOf (params navigateToCheckout) \<noteq> ''act''"
    by code_simp+
  have s: "isSensitiveDomain simpleUrlHostname ''https://shop.test/checkout'' [''shop.test'']"
    "\<not> isSensitiveDomain simpleUrlHostname ''https://example.org/checkout'' [''shop.test'']"
    by code_simp+
  have k: "regexTest PURCHASE_KEYWORDS (extractActText (params placeOrderClick))"
    "\<not> regexTest PURCHASE_KEYWORDS (extractActText (params wishlistClick))"
    by code_simp+
  show ?thesis
    using guard_blocks_iff [OF t(1) u, where u = "''https://shop.test/checkout''"
        and urlHostname = simpleUrlHostname and domains = "[''shop.test'']" and lastKnownUrl = None]
      guard_blocks_iff [OF t(2) u, where u = "''https://shop.test/checkout''"
        and urlHostname = simpleUrlHostname and domains = "[''shop.test'']" and lastKnownUrl = None]
      guard_blocks_iff [OF t(1) u, where u = "''https://example.org/checkout''"
        and urlHostname = simpleUrlHostname and domains = "[''shop.test'']" and lastKnownUrl = None]
      guard_blocks_iff [OF t(2) u, where u = "''https://example.org/checkout''"
        and urlHostname = simpleUrlHostname and domains = "[''shop.test'']" and lastKnownUrl = None]
      guard_blocks_iff [OF t(3) u, where u = "''https://shop.test/cart''"
        and urlHostname = simpleUrlHostname and domains = "[''shop.test'']" and lastKnownUrl = None]
      a s k
    by simp
qed

text \<open>
  C1 as stated fails where the tracked URL is the empty string and the empty string is a
  configured domain: the action is \<^verbatim>\<open>act\<close>, the URL is classified
  sensitive (the parser rejects it and every string contains the empty domain), the text
  matches, and the guard lets the action pass at its test \<^verbatim>\<open>if (!currentUrl) return\<close>.
\<close>

theorem guard_empty_url_passes:
  "toolName placeOrderClick = ''browser''
   \<and> actionOf (params placeOrderClick) = ''act''
   \<and> isSensitiveDomain simpleUrlHostname '''' ['''']
   \<and> regexTest PURCHASE_KEYWORDS (extractActText (params placeOrderClick))
   \<and> fst (browserGuardHandler simpleUrlHostname [''''] (Some (Some '''')) None
            placeOrderClick) = None"
  by code_simp


section \<open>URL Tracker\<close>

text \<open>
  C9, as the code has it.  The tracker looks at calls of the browser tool only.  For such
  a call, a result with a string \<^verbatim>\<open>url\<close> sets the cell to that URL; without one, a
  \<^verbatim>\<open>navigate\<close> action with a string target sets the cell to the target; otherwise the
  cell keeps its value.  Calls of every other tool leave the cell as it is.
\<close>

theorem urlTracker_updates:
  "(toolName event \<noteq> ''browser'' \<longrightarrow> urlTrackerHandler event cell = cell)
   \<and> (toolName event = ''browser'' \<and> resultUrl (result event) = Some u
        \<longrightarrow> urlTrackerHandler event cell = Some u)
   \<and> (toolName event = ''browser'' \<and> resultUrl (result event) = None
        \<and> navigateTarget (params event) = Some t
        \<longrightarrow> urlTrackerHandler event cell = Some t)
   \<and> (toolName event = ''browser'' \<and> resultUrl (result event) = None
        \<and> navigateTarget (params event) = None
        \<longrightarrow> urlTrackerHandler event cell = cell)"
  by (auto simp: urlTrackerHandler_def)

theorem urlTracker_updates_witness:
  "urlTrackerHandler fetchDone (Some ''https://shop.test/'') = Some ''https://shop.test/''
   \<and> urlTrackerHandler submitDone (Some ''https://shop.test/'') = Some ''https://shop.test/checkout''
   \<and> urlTrackerHandler navigateDone None = Some ''https://shop.test/''
   \<and> urlTrackerHandler snapshotDone (Some ''https://shop.test/'') = Some ''https://shop.test/''"
proof -
  have t: "toolName fetchDone \<noteq> ''browser''" "toolName submitDone = ''browser''"
    "toolName navigateDone = ''browser''" "toolName snapshotDone = ''browser''"
    by (simp_all add: fetchDone_def submitDone_def navigateDone_def snapshotDone_def)
  have r: "resultUrl (result submitDone) = Some ''https://shop.test/checkout''"
    "resultUrl (result navigateDone) = None" "resultUrl (result snapshotDone) = None"
    by code_simp+
  have n: "navigateTarget (params navigateDone) = Some ''https://shop.test/''"
    "navigateTarget (params snapshotDone) = None"
    by code_simp+
  show ?thesis
    using urlTracker_updates [where event = fetchDone and cell = "Some ''https://shop.test/''"]
      urlTracker_updates [where event = submitDone and u = "''https://shop.test/checkout''"
        and cell = "Some ''https://shop.test/''"]
      urlTracker_updates [where event = navigateDone and t = "''https://shop.test/''"
        and cell = None]
      urlTracker_updates [where event = snapshotDone and cell = "Some ''https://shop.test/''"]
      t r n
    by simp
qed

text \<open>
  C9 as stated fails in its second case for a tool other than the browser tool: its
  result carries a string \<^verbatim>\<open>url\<close> and the cell stays empty.
\<close>

theorem urlTracker_ignores_other_tools:
  "resultUrl (result fetchDone) = Some ''https://shop.test/cart''
   \<and> urlTrackerHandler fetchDone None = None"
  by code_simp


section \<open>Approval Ledger\<close>

text \<open>The invariant holds at the start and every operation keeps it.\<close>

lemma inv_start: "ledgerInv noApprovals"
  by (simp add: ledgerInv_def noApprovals_def)

lemma inv_wait:
  assumes "ledgerInv w"
  shows "ledgerInv (snd (waitForApproval i ms w))"
  using assms unfolding ledgerInv_def waitForApproval_def Let_def
  apply (simp add: distinct_update update_conv' image_iff)
  apply (intro conjI allI impI)
  apply (fastforce split: if_splits)+
  done

lemma map_of_delete_Some:
  "map_of (AList.delete k l) k' = Some e \<Longrightarrow> k' \<noteq> k \<and> map_of l k' = Some e"
  by (auto simp: delete_conv' split: if_splits)


text \<open>Removing an entry and calling its resolver, as both terminal transitions do.\<close>

lemma ledgerInv_settle:
  assumes inv: "ledgerInv w"
    and armed: "timers w h = Some t"
    and ent: "\<And>k e. map_of (pendingApprovals w) k = Some e \<Longrightarrow> k \<noteq> i \<Longrightarrow> pa_timeout e \<noteq> h"
  shows "ledgerInv
     (w\<lparr>timers := (timers w)(h := None),
        pendingApprovals := AList.delete i (pendingApprovals w),
        resolverCalls := resolverCalls w @ [(t_resolve t, a)]\<rparr>)"
    (is "ledgerInv ?w'")
proof -
  have i1: "distinct (map fst (pendingApprovals w))"
    and i2: "\<And>k e. map_of (pendingApprovals w) k = Some e \<Longrightarrow>
            \<exists>t. timers w (pa_timeout e) = Some t \<and> t_approvalId t = k \<and> t_resolve t = pa_resolve e"
    and i3: "\<And>h t. timers w h = Some t \<Longrightarrow>
            h < nextTimer w \<and> t_resolve t < nextPromise w \<and> t_resolve t \<notin> fst ` set (resolverCalls w)"
    and i4: "\<And>h h' t t'. timers w h = Some t \<Longrightarrow> timers w h' = Some t' \<Longrightarrow> t_resolve t = t_resolve t'
            \<Longrightarrow> h = h'"
    and i5: "\<And>c. c \<in> set (resolverCalls w) \<Longrightarrow> fst c < nextPromise w"
    and i6: "distinct (map fst (resolverCalls w))"
    using inv unfolding ledgerInv_def by blast+
  have sel: "pendingApprovals ?w' = AList.delete i (pendingApprovals w)"
    "timers ?w' = (timers w)(h := None)"
    "resolverCalls ?w' = resolverCalls w @ [(t_resolve t, a)]"
    "nextPromise ?w' = nextPromise w" "nextTimer ?w' = nextTimer w"
    by simp_all
  have g1: "distinct (map fst (pendingApprovals ?w'))"
    unfolding sel using i1 by (rule distinct_delete)
  have g2: "\<exists>t'. timers ?w' (pa_timeout e) = Some t' \<and> t_approvalId t' = k \<and> t_resolve t' = pa_resolve e"
    if "map_of (pendingApprovals ?w') k = Some e" for k e
  proof -
    from that have k: "k \<noteq> i" "map_of (pendingApprovals w) k = Some e"
      unfolding sel by (auto dest: map_of_delete_Some)
    from ent[OF k(2) k(1)] i2[OF k(2)] show ?thesis unfolding sel by simp
  qed
  have g3: "h' < nextTimer ?w' \<and> t_resolve t' < nextPromise ?w'
      \<and> t_resolve t' \<notin> fst ` set (resolverCalls ?w')"
    if "timers ?w' h' = Some t'" for h' t'
  proof -
    from that have h': "h' \<noteq> h" "timers w h' = Some t'"
      unfolding sel by (auto split: if_splits)
    from i4[OF h'(2) armed] h'(1) have "t_resolve t' \<noteq> t_resolve t" by blast
    with i3[OF h'(2)] show ?thesis unfolding sel by simp
  qed
  have g4: "h1 = h2"
    if "timers ?w' h1 = Some t1" "timers ?w' h2 = Some t2" "t_resolve t1 = t_resolve t2"
    for h1 h2 t1 t2
  proof -
    from that have "timers w h1 = Some t1" "timers w h2 = Some t2"
      unfolding sel by (auto split: if_splits)
    then show ?thesis using that(3) by (rule i4)
  qed
  have g5: "fst c < nextPromise ?w'" if "c \<in> set (resolverCalls ?w')" for c
  proof -
    from that have "c \<in> set (resolverCalls w) \<or> c = (t_resolve t, a)"
      unfolding sel by auto
    then show ?thesis
    proof
      assume "c \<in> set (resolverCalls w)"
      then show ?thesis unfolding sel by (rule i5)
    next
      assume "c = (t_resolve t, a)"
      then show ?thesis using i3[OF armed] unfolding sel by simp
    qed
  qed
  have g6: "distinct (map fst (resolverCalls ?w'))"
    unfolding sel using i6 i3[OF armed] by simp
  show ?thesis
    unfolding ledgerInv_def using g1 g2 g3 g4 g5 g6 by blast
qed

lemma inv_resolve:
  assumes "ledgerInv w"
  shows "ledgerInv (snd (resolveApproval i a w))"
proof (cases "map_of (pendingApprovals w) i")
  case None
  then show ?thesis using assms by (simp add: resolveApproval_def)
next
  case (Some e)
  from assms Some obtain t0 where t0: "timers w (pa_timeout e) = Some t0"
    "t_approvalId t0 = i" "t_resolve t0 = pa_resolve e"
    unfolding ledgerInv_def by blast
  have ent: "pa_timeout e' \<noteq> pa_timeout e"
    if "map_of (pendingApprovals w) k = Some e'" "k \<noteq> i" for k e'
  proof -
    from assms that(1) obtain t1 where "timers w (pa_timeout e') = Some t1" "t_approvalId t1 = k"
      unfolding ledgerInv_def by blast
    with t0 that(2) show ?thesis by auto
  qed
  have "ledgerInv
     (w\<lparr>timers := (timers w)(pa_timeout e := None),
        pendingApprovals := AList.delete i (pendingApprovals w),
        resolverCalls := resolverCalls w @ [(t_resolve t0, a)]\<rparr>)"
    using assms t0(1) ent by (rule ledgerInv_settle)
  then show ?thesis using Some t0(3) by (simp add: resolveApproval_def)
qed

lemma inv_fire:
  assumes "ledgerInv w"
  shows "ledgerInv (timerFires h w)"
proof (cases "timers w h")
  case None
  then show ?thesis using assms by (simp add: timerFires_def)
next
  case (Some t)
  have ent: "pa_timeout e' \<noteq> h"
    if "map_of (pendingApprovals w) k = Some e'" "k \<noteq> t_approvalId t" for k e'
  proof -
    from assms that(1) obtain t1 where "timers w (pa_timeout e') = Some t1" "t_approvalId t1 = k"
      unfolding ledgerInv_def by blast
    with Some that(2) show ?thesis by auto
  qed
  have "ledgerInv
     (w\<lparr>timers := (timers w)(h := None),
        pendingApprovals := AList.delete (t_approvalId t) (pendingApprovals w),
        resolverCalls := resolverCalls w @ [(t_resolve t, False)]\<rparr>)"
    using assms Some ent by (rule ledgerInv_settle)
  then show ?thesis using Some by (simp add: timerFires_def)
qed

lemma reachable_inv: "reachable w \<Longrightarrow> ledgerInv w"
  by (induction rule: reachable.induct) (simp_all add: inv_start inv_wait inv_resolve inv_fire)


lemma promiseValue_first_call:
  "promiseValue w p = None \<Longrightarrow> promiseValue (w\<lparr>resolverCalls := resolverCalls w @ [(p, a)]\<rparr>) p = Some a"
  by (simp add: promiseValue_def map_add_def)

lemma promiseValue_None: "promiseValue w p = None \<longleftrightarrow> p \<notin> fst ` set (resolverCalls w)"
  by (simp add: promiseValue_def map_of_eq_None_iff)

lemma armed_resolver_pending:
  "ledgerInv w \<Longrightarrow> timers w h = Some t \<Longrightarrow> promiseValue w (t_resolve t) = None"
  unfolding ledgerInv_def promiseValue_None by blast

lemma entry_resolver_pending:
  assumes "ledgerInv w" "map_of (pendingApprovals w) k = Some e"
  shows "promiseValue w (pa_resolve e) = None"
proof -
  from assms obtain t where "timers w (pa_timeout e) = Some t" "t_resolve t = pa_resolve e"
    unfolding ledgerInv_def by blast
  with armed_resolver_pending[OF assms(1), of "pa_timeout e" t] show ?thesis by simp
qed

lemma called_once:
  "p \<notin> fst ` set cs \<Longrightarrow> length (filter (\<lambda>c. fst c = p) (cs @ [(p, a)])) = 1"
  by (induction cs) auto

text \<open>
  C2.  On a live entry \<^verbatim>\<open>resolveApproval\<close> returns \<^verbatim>\<open>true\<close>, disarms the entry's timer,
  removes the entry and calls the entry's resolver once with \<open>approved\<close>; every later call
  for the same id returns \<^verbatim>\<open>false\<close> and changes nothing, so it calls no resolver.  In a
  state the ledger can reach, the resolver had not been called before: the promise takes
  the value \<open>approved\<close> and the resolver has been called exactly once.
\<close>

theorem resolveApproval_exactly_once:
  assumes "map_of (pendingApprovals w) approvalId = Some entry"
  shows "fst (resolveApproval approvalId approved w) = True
    \<and> timers (snd (resolveApproval approvalId approved w)) (pa_timeout entry) = None
    \<and> map_of (pendingApprovals (snd (resolveApproval approvalId approved w))) approvalId = None
    \<and> resolverCalls (snd (resolveApproval approvalId approved w))
        = resolverCalls w @ [(pa_resolve entry, approved)]
    \<and> (\<forall>again. resolveApproval approvalId again (snd (resolveApproval approvalId approved w))
          = (False, snd (resolveApproval approvalId approved w)))
    \<and> (reachable w \<longrightarrow>
          promiseValue w (pa_resolve entry) = None
          \<and> promiseValue (snd (resolveApproval approvalId approved w)) (pa_resolve entry)
              = Some approved
          \<and> length (filter (\<lambda>c. fst c = pa_resolve entry)
               (resolverCalls (snd (resolveApproval approvalId approved w)))) = 1)"
proof -
  let ?w' = "snd (resolveApproval approvalId approved w)"
  have w': "?w' = w\<lparr>timers := (timers w)(pa_timeout entry := None),
             pendingApprovals := AList.delete approvalId (pendingApprovals w),
             resolverCalls := resolverCalls w @ [(pa_resolve entry, approved)]\<rparr>"
    using assms by (simp add: resolveApproval_def)
  have gone: "map_of (pendingApprovals ?w') approvalId = None"
    unfolding w' by (simp add: delete_conv')
  have a: "fst (resolveApproval approvalId approved w) = True"
    using assms by (simp add: resolveApproval_def)
  have b: "timers ?w' (pa_timeout entry) = None" unfolding w' by simp
  have c: "resolverCalls ?w' = resolverCalls w @ [(pa_resolve entry, approved)]"
    unfolding w' by simp
  have d: "resolveApproval approvalId again ?w' = (False, ?w')" for again
    using gone by (simp add: resolveApproval_def)
  have e: "promiseValue w (pa_resolve entry) = None
          \<and> promiseValue ?w' (pa_resolve entry) = Some approved
          \<and> length (filter (\<lambda>c. fst c = pa_resolve entry) (resolverCalls ?w')) = 1"
    if "reachable w"
  proof -
    from that have inv: "ledgerInv w" by (rule reachable_inv)
    have p: "promiseValue w (pa_resolve entry) = None"
      using inv assms by (rule entry_resolver_pending)
    then have "pa_resolve entry \<notin> fst ` set (resolverCalls w)" by (simp add: promiseValue_None)
    then have "length (filter (\<lambda>c. fst c = pa_resolve entry) (resolverCalls ?w')) = 1"
      unfolding c by (rule called_once)
    moreover have "promiseValue ?w' (pa_resolve entry) = Some approved"
      using p unfolding promiseValue_def c by (simp add: map_add_def)
    ultimately show ?thesis using p by blast
  qed
  show ?thesis using a b gone c d e by blast
qed

lemma oneWaiting_entry:
  "map_of (pendingApprovals oneWaiting) ''ab12cd34''
     = Some \<lparr>pa_id = ''ab12cd34'', pa_resolve = 0, pa_timeout = 0\<rparr>"
  by (simp add: oneWaiting_def waitForApproval_def noApprovals_def)

lemma oneWaiting_reachable: "reachable oneWaiting"
  unfolding oneWaiting_def by (intro reachable.intros)

theorem resolveApproval_exactly_once_witness:
  "map_of (pendingApprovals oneWaiting) ''ab12cd34''
     = Some \<lparr>pa_id = ''ab12cd34'', pa_resolve = 0, pa_timeout = 0\<rparr>
   \<and> fst (resolveApproval ''ab12cd34'' True oneWaiting) = True
   \<and> resolverCalls (snd (resolveApproval ''ab12cd34'' True oneWaiting)) = [(0, True)]
   \<and> promiseValue (snd (resolveApproval ''ab12cd34'' True oneWaiting)) 0 = Some True
   \<and> fst (resolveApproval ''ab12cd34'' True (snd (resolveApproval ''ab12cd34'' True oneWaiting)))
       = False
   \<and> resolverCalls (snd (resolveApproval ''ab12cd34'' True
         (snd (resolveApproval ''ab12cd34'' True oneWaiting)))) = [(0, True)]"
proof -
  have calls: "resolverCalls oneWaiting = []"
    by (simp add: oneWaiting_def waitForApproval_def noApprovals_def)
  show ?thesis
    using resolveApproval_exactly_once [OF oneWaiting_entry, of True] oneWaiting_reachable oneWaiting_entry calls
    by simp
qed

text \<open>
  C4.  While an approval's timer is armed (no \<^verbatim>\<open>resolveApproval\<close> has cleared it and it
  has not fired), its firing removes the entry of that id and calls the approval's
  resolver with \<^verbatim>\<open>false\<close>; the resolver had not been called, so the awaited promise takes
  the value \<^verbatim>\<open>false\<close>, the tool call returns \<^verbatim>\<open>approved: false\<close>, and
  \<^verbatim>\<open>resolveApproval\<close> on that id then returns \<^verbatim>\<open>false\<close> and changes nothing.
\<close>

theorem timeout_resolves_false:
  assumes "reachable w" and "timers w h = Some t"
  shows "map_of (pendingApprovals (timerFires h w)) (t_approvalId t) = None
    \<and> resolverCalls (timerFires h w) = resolverCalls w @ [(t_resolve t, False)]
    \<and> promiseValue w (t_resolve t) = None
    \<and> promiseValue (timerFires h w) (t_resolve t) = Some False
    \<and> map_option (\<lambda>approved. confirmActionReturn approved (t_approvalId t))
          (promiseValue (timerFires h w) (t_resolve t))
        = Some (JObj [(''approved'', JBool False), (''approvalId'', JStr (t_approvalId t))])
    \<and> (\<forall>approved. resolveApproval (t_approvalId t) approved (timerFires h w)
          = (False, timerFires h w))"
proof -
  let ?w' = "timerFires h w"
  have w': "?w' = w\<lparr>timers := (timers w)(h := None),
            pendingApprovals := AList.delete (t_approvalId t) (pendingApprovals w),
            resolverCalls := resolverCalls w @ [(t_resolve t, False)]\<rparr>"
    using assms(2) by (simp add: timerFires_def)
  have gone: "map_of (pendingApprovals ?w') (t_approvalId t) = None"
    unfolding w' by (simp add: delete_conv')
  have calls: "resolverCalls ?w' = resolverCalls w @ [(t_resolve t, False)]"
    unfolding w' by simp
  have pending: "promiseValue w (t_resolve t) = None"
    using reachable_inv[OF assms(1)] assms(2) by (rule armed_resolver_pending)
  have denied: "promiseValue ?w' (t_resolve t) = Some False"
    using pending unfolding promiseValue_def calls by (simp add: map_add_def)
  have after: "resolveApproval (t_approvalId t) approved ?w' = (False, ?w')" for approved
    using gone by (simp add: resolveApproval_def)
  show ?thesis
    using gone calls pending denied after by (simp add: confirmActionReturn_def)
qed

theorem timeout_resolves_false_witness:
  "timers oneWaiting 0 = Some \<lparr>t_delay = 300000, t_approvalId = ''ab12cd34'', t_resolve = 0\<rparr>
   \<and> map_of (pendingApprovals (timerFires 0 oneWaiting)) ''ab12cd34'' = None
   \<and> resolverCalls (timerFires 0 oneWaiting) = [(0, False)]
   \<and> promiseValue (timerFires 0 oneWaiting) 0 = Some False
   \<and> fst (resolveApproval ''ab12cd34'' True (timerFires 0 oneWaiting)) = False
   \<and> resolverCalls (snd (resolveApproval ''ab12cd34'' True (timerFires 0 oneWaiting)))
       = [(0, False)]"
proof -
  have armed: "timers oneWaiting 0
      = Some \<lparr>t_delay = 300000, t_approvalId = ''ab12cd34'', t_resolve = 0\<rparr>"
    by (simp add: oneWaiting_def waitForApproval_def noApprovals_def)
  have calls: "resolverCalls oneWaiting = []"
    by (simp add: oneWaiting_def waitForApproval_def noApprovals_def)
  show ?thesis
    using timeout_resolves_false [OF oneWaiting_reachable armed] armed calls by simp
qed

text \<open>
  C3, as the code has it.  The keys of the ledger are distinct in every state it can
  reach.  \<^verbatim>\<open>waitForApproval\<close> has no collision test and no failing branch: it stores
  the new entry under its id (the other ids keep their entries), arms the entry's timer
  and returns a pending promise.
\<close>

theorem waitForApproval_inserts:
  assumes "reachable w"
  shows "distinct (listPendingApprovals w)
    \<and> distinct (listPendingApprovals (snd (waitForApproval approvalId timeoutMs w)))
    \<and> map_of (pendingApprovals (snd (waitForApproval approvalId timeoutMs w))) approvalId
        = Some \<lparr>pa_id = approvalId, pa_resolve = fst (waitForApproval approvalId timeoutMs w),
                pa_timeout = nextTimer w\<rparr>
    \<and> (\<forall>k. k \<noteq> approvalId \<longrightarrow>
          map_of (pendingApprovals (snd (waitForApproval approvalId timeoutMs w))) k
            = map_of (pendingApprovals w) k)
    \<and> timers (snd (waitForApproval approvalId timeoutMs w)) (nextTimer w)
        = Some \<lparr>t_delay = timeoutMs, t_approvalId = approvalId,
                t_resolve = fst (waitForApproval approvalId timeoutMs w)\<rparr>
    \<and> promiseValue (snd (waitForApproval approvalId timeoutMs w))
          (fst (waitForApproval approvalId timeoutMs w)) = None"
proof -
  have inv: "ledgerInv w" using assms by (rule reachable_inv)
  have inv': "ledgerInv (snd (waitForApproval approvalId timeoutMs w))"
    using inv by (rule inv_wait)
  have d: "distinct (listPendingApprovals w)"
    "distinct (listPendingApprovals (snd (waitForApproval approvalId timeoutMs w)))"
    using inv inv' unfolding ledgerInv_def listPendingApprovals_def by blast+
  have fresh: "nextPromise w \<notin> fst ` set (resolverCalls w)"
    using inv unfolding ledgerInv_def by fastforce
  show ?thesis
    using d fresh
    by (simp add: waitForApproval_def Let_def update_conv' promiseValue_None)
qed

theorem waitForApproval_inserts_witness:
  "distinct (listPendingApprovals (snd (waitForApproval ''ef56ab78'' 300000 oneWaiting)))
   \<and> listPendingApprovals (snd (waitForApproval ''ef56ab78'' 300000 oneWaiting))
       = [''ab12cd34'', ''ef56ab78'']
   \<and> map_of (pendingApprovals (snd (waitForApproval ''ef56ab78'' 300000 oneWaiting))) ''ef56ab78''
       = Some \<lparr>pa_id = ''ef56ab78'', pa_resolve = 1, pa_timeout = 1\<rparr>
   \<and> map_of (pendingApprovals (snd (waitForApproval ''ef56ab78'' 300000 oneWaiting))) ''ab12cd34''
       = Some \<lparr>pa_id = ''ab12cd34'', pa_resolve = 0, pa_timeout = 0\<rparr>"
proof -
  have l: "listPendingApprovals (snd (waitForApproval ''ef56ab78'' 300000 oneWaiting))
       = [''ab12cd34'', ''ef56ab78'']"
    by (simp add: listPendingApprovals_def oneWaiting_def waitForApproval_def noApprovals_def)
  have n: "nextTimer oneWaiting = 1" "fst (waitForApproval ''ef56ab78'' 300000 oneWaiting) = 1"
    by (simp_all add: oneWaiting_def waitForApproval_def noApprovals_def)
  have k: "''ab12cd34'' \<noteq> ''ef56ab78''" by simp
  show ?thesis
    using waitForApproval_inserts [OF oneWaiting_reachable, of "''ef56ab78''" 300000] l n k oneWaiting_entry
    by simp
qed

text \<open>
  C3 as stated fails: where the id is that of a live entry, the call does not fail.  It
  returns the pending promise 1, and the entry of promise 0 is replaced by the new one.
\<close>

theorem waitForApproval_replaces_live_entry:
  "map_of (pendingApprovals oneWaiting) ''ab12cd34''
     = Some \<lparr>pa_id = ''ab12cd34'', pa_resolve = 0, pa_timeout = 0\<rparr>
   \<and> fst (waitForApproval ''ab12cd34'' 300000 oneWaiting) = 1
   \<and> promiseValue (snd (waitForApproval ''ab12cd34'' 300000 oneWaiting)) 1 = None
   \<and> pendingApprovals (snd (waitForApproval ''ab12cd34'' 300000 oneWaiting))
       = [(''ab12cd34'', \<lparr>pa_id = ''ab12cd34'', pa_resolve = 1, pa_timeout = 1\<rparr>)]"
  by (simp add: oneWaiting_def waitForApproval_def noApprovals_def promiseValue_def)



section \<open>Credential Bridge and Vault Fill\<close>

lemma snd_andThen:
  "snd (andThen m f) = (case snd m of Inl e \<Rightarrow> Inl e | Inr a \<Rightarrow> snd (f a))"
  by (auto simp: andThen_def split: prod.splits sum.splits)

lemma fst_andThen:
  "fst (andThen m f) = fst m @ (case snd m of Inl e \<Rightarrow> [] | Inr a \<Rightarrow> fst (f a))"
  by (auto simp: andThen_def split: prod.splits sum.splits)

lemma actsOf_append: "actsOf (xs @ ys) = actsOf xs @ actsOf ys"
  by (induction xs rule: actsOf.induct) simp_all

lemma resolvedOf_append: "resolvedOf (xs @ ys) = resolvedOf xs @ resolvedOf ys"
  by (induction xs rule: resolvedOf.induct) simp_all

lemma fst_getClient: "fst (getClient c) = []"
  by (simp add: getClient_def split: option.splits)

lemma vaultResolve_trace:
  "actsOf (fst (vaultResolve itemRef vaultPrefix c)) = []
   \<and> Snapshot \<notin> set (fst (vaultResolve itemRef vaultPrefix c))"
  by (simp add: vaultResolve_def fst_andThen fst_getClient resolveSecret_def Let_def actsOf_append
      split: sum.splits)






lemma fillBoth_run:
  "fst (fillBoth c u p cr) =
     (if act c u (username cr) = None
      then [Act u (username cr), Act p (password cr)] else [Act u (username cr)])
   \<and> snd (fillBoth c u p cr) =
     (case act c u (username cr) of
        Some m \<Rightarrow> Inl m
      | None \<Rightarrow> (case act c p (password cr) of Some m \<Rightarrow> Inl m | None \<Rightarrow> Inr (filledResult True)))"
  by (simp add: fillBoth_def fillField_def andThen_def split: option.splits)






text \<open>The loop does for each entry what the entry needs alone, in order.\<close>

lemma fillEntries_each:
  "fillEntries c bp es n errs =
     (concat (map (fieldCalls c bp) es),
      n + length (filter (\<lambda>e. fieldFailure c bp e = None) es),
      errs @ List.map_filter (fieldFailure c bp) es)"
proof (induction es arbitrary: n errs)
  case Nil
  show ?case by simp
next
  case (Cons e es)
  obtain r f where e: "e = (r, f)" by (cases e)
  show ?case
    unfolding e
    by (simp add: Cons.IH Let_def fieldCalls_def fieldFailure_def fieldPath_def
        split: sum.splits option.splits)
qed












lemma Act_in_trace: "Act r t \<in> set tr \<longleftrightarrow> (r, t) \<in> set (actsOf tr)"
  by (induction tr rule: actsOf.induct) auto

lemma browserSnapshot_trace: "fst (browserSnapshot c) = [Snapshot]"
  by (simp add: browserSnapshot_def split: snapshotResult.splits)

text \<open>
  C7, as the code has it.  With a field map that gives a non-empty reference for both
  \<^verbatim>\<open>username\<close> and \<^verbatim>\<open>password\<close>, \<open>vaultInject\<close> takes no snapshot and types only into
  these two references.  With no field map, credentials resolved, a snapshot that has a
  text box matching the e-mail pattern and one matching the password pattern, and a
  browser that accepts the texts, it returns \<^verbatim>\<open>{ filled: true }\<close>; with a snapshot that
  has no text box matching the e-mail pattern it throws the error of the user name field.
\<close>

theorem vaultInject_field_detection:
  "(fieldMap = Some fm \<and> map_of fm ''username'' = Some u \<and> u \<noteq> []
      \<and> map_of fm ''password'' = Some q \<and> q \<noteq> []
      \<longrightarrow> Snapshot \<notin> set (fst (vaultInject itemRef fieldMap vaultPrefix c))
          \<and> (\<forall>r t. Act r t \<in> set (fst (vaultInject itemRef fieldMap vaultPrefix c))
                \<longrightarrow> r = u \<or> r = q))
   \<and> (snd (vaultResolve itemRef vaultPrefix c) = Inr creds
      \<and> snapshot c = SnapshotAria nodes
      \<and> (\<exists>n \<in> set nodes. labelMatches emailPattern n)
      \<and> (\<exists>n \<in> set nodes. labelMatches passwordPattern n)
      \<and> (\<forall>r t. act c r t = None)
      \<longrightarrow> snd (vaultInject itemRef None vaultPrefix c) = Inr (filledResult True))
   \<and> (snd (vaultResolve itemRef vaultPrefix c) = Inr creds
      \<and> snapshot c = SnapshotAria nodes
      \<and> \<not> (\<exists>n \<in> set nodes. labelMatches emailPattern n)
      \<longrightarrow> snd (vaultInject itemRef None vaultPrefix c)
          = Inl ''Could not auto-detect username/email input field on page'')"
proof (intro conjI impI)
  assume h: "fieldMap = Some fm \<and> map_of fm ''username'' = Some u \<and> u \<noteq> []
      \<and> map_of fm ''password'' = Some q \<and> q \<noteq> []"
  then have refs: "truthyString (fieldRef fieldMap ''username'') = Some u"
    "truthyString (fieldRef fieldMap ''password'') = Some q"
    by (simp_all add: truthyString_def fieldRef_def)
  have tr: "fst (vaultInject itemRef fieldMap vaultPrefix c)
      = fst (vaultResolve itemRef vaultPrefix c)
        @ (case snd (vaultResolve itemRef vaultPrefix c) of
             Inl e \<Rightarrow> []
           | Inr cr \<Rightarrow> fst (fillBoth c u q cr))"
    by (simp add: vaultInject_def fst_andThen refs)
  show "Snapshot \<notin> set (fst (vaultInject itemRef fieldMap vaultPrefix c))"
    unfolding tr using vaultResolve_trace[of itemRef vaultPrefix c]
    by (simp add: fillBoth_run split: sum.splits)
  show "\<forall>r t. Act r t \<in> set (fst (vaultInject itemRef fieldMap vaultPrefix c)) \<longrightarrow> r = u \<or> r = q"
    unfolding tr Act_in_trace actsOf_append using vaultResolve_trace[of itemRef vaultPrefix c]
    by (auto simp: fillBoth_run split: sum.splits if_splits)
next
  assume h: "snd (vaultResolve itemRef vaultPrefix c) = Inr creds
      \<and> snapshot c = SnapshotAria nodes
      \<and> (\<exists>n \<in> set nodes. labelMatches emailPattern n)
      \<and> (\<exists>n \<in> set nodes. labelMatches passwordPattern n)
      \<and> (\<forall>r t. act c r t = None)"
  then obtain en pn where f: "find (labelMatches emailPattern) nodes = Some en"
    "find (labelMatches passwordPattern) nodes = Some pn"
    by (metis find_None_iff not_Some_eq)
  from h show "snd (vaultInject itemRef None vaultPrefix c) = Inr (filledResult True)"
    by (simp add: vaultInject_def snd_andThen fieldRef_def truthyString_def browserSnapshot_def
        nodesOf_def f fillBoth_run)
next
  assume h: "snd (vaultResolve itemRef vaultPrefix c) = Inr creds
      \<and> snapshot c = SnapshotAria nodes
      \<and> \<not> (\<exists>n \<in> set nodes. labelMatches emailPattern n)"
  then have f: "find (labelMatches emailPattern) nodes = None"
    by (simp add: find_None_iff)
  from h show "snd (vaultInject itemRef None vaultPrefix c)
          = Inl ''Could not auto-detect username/email input field on page''"
    by (simp add: vaultInject_def snd_andThen fieldRef_def truthyString_def browserSnapshot_def
        nodesOf_def f)
qed

theorem vaultInject_field_detection_witness:
  "Snapshot \<notin> set (fst (vaultInject ''amazon''
        (Some [(''username'', ''e1''), (''password'', ''e2'')]) None loginPage))
   \<and> snd (vaultInject ''amazon'' None None loginPage) = Inr (filledResult True)
   \<and> snd (vaultInject ''amazon'' None None buttonPage)
       = Inl ''Could not auto-detect username/email input field on page''"
proof -
  let ?fm = "[(''username'', ''e1''), (''password'', ''e2'')]"
  let ?nodes = "[\<lparr>ref = ''e1'', role = ''textbox'', name = ''Email address'', description = None\<rparr>,
         \<lparr>ref = ''e2'', role = ''textbox'', name = ''Password'', description = None\<rparr>,
         \<lparr>ref = ''e3'', role = ''button'', name = ''Sign in'', description = None\<rparr>]"
  let ?button = "[\<lparr>ref = ''e3'', role = ''button'', name = ''Sign in'', description = None\<rparr>]"
  let ?creds = "\<lparr>username = ''alice@example.org'', password = ''hunter2'', totp = Some ''123456''\<rparr>"
  have m: "map_of ?fm ''username'' = Some ''e1''" "map_of ?fm ''password'' = Some ''e2''"
    by simp_all
  have r1: "snd (vaultResolve ''amazon'' None loginPage) = Inr ?creds" by code_simp
  have r2: "snd (vaultResolve ''amazon'' None buttonPage) = Inr ?creds" by code_simp
  have s1: "snapshot loginPage = SnapshotAria ?nodes" by (simp add: loginPage_def)
  have s2: "snapshot buttonPage = SnapshotAria ?button" by (simp add: buttonPage_def loginPage_def)
  have e1: "\<exists>n \<in> set ?nodes. labelMatches emailPattern n"
  proof
    show "labelMatches emailPattern
      \<lparr>ref = ''e1'', role = ''textbox'', name = ''Email address'', description = None\<rparr>"
      by code_simp
  qed simp
  have p1: "\<exists>n \<in> set ?nodes. labelMatches passwordPattern n"
  proof
    show "labelMatches passwordPattern
      \<lparr>ref = ''e2'', role = ''textbox'', name = ''Password'', description = None\<rparr>"
      by code_simp
  qed simp
  have a1: "\<forall>r t. act loginPage r t = None" by (simp add: loginPage_def)
  have e2: "\<not> (\<exists>n \<in> set ?button. labelMatches emailPattern n)"
    by (simp add: labelMatches_def)
  have w1: "Snapshot \<notin> set (fst (vaultInject ''amazon'' (Some ?fm) None loginPage))"
    using vaultInject_field_detection [where fieldMap = "Some ?fm" and fm = ?fm and u = "''e1''" and q = "''e2''"
        and itemRef = "''amazon''" and vaultPrefix = None and c = loginPage] m
    by simp
  have w2: "snd (vaultInject ''amazon'' None None loginPage) = Inr (filledResult True)"
    using vaultInject_field_detection [where itemRef = "''amazon''" and vaultPrefix = None and c = loginPage
        and creds = ?creds and nodes = ?nodes] r1 s1 e1 p1 a1
    by blast
  have w3: "snd (vaultInject ''amazon'' None None buttonPage)
       = Inl ''Could not auto-detect username/email input field on page''"
    using vaultInject_field_detection [where itemRef = "''amazon''" and vaultPrefix = None and c = buttonPage
        and creds = ?creds and nodes = ?button] r2 s2 e2
    by blast
  show ?thesis using w1 w2 w3 by blast
qed

text \<open>
  C7 as stated fails in its first part for a field map that gives the user name only: the test
  \<^verbatim>\<open>usernameRef && passwordRef\<close> is false and \<open>vaultInject\<close> takes a snapshot.
\<close>

theorem partial_field_map_takes_snapshot:
  "fieldRef (Some [(''username'', ''e1'')]) ''username'' = Some ''e1''
   \<and> Snapshot \<in> set (fst (vaultInject ''amazon'' (Some [(''username'', ''e1'')]) None loginPage))"
  by code_simp

lemma abortsAtFailure_no_acts: "actsOf (fst run) = [] \<Longrightarrow> abortsAtFailure c k run"
  by (simp add: abortsAtFailure_def)

lemma abortsAtFailure_same:
  "actsOf (fst r1) = actsOf (fst r2) \<Longrightarrow> snd r1 = snd r2
   \<Longrightarrow> abortsAtFailure c k r2 \<Longrightarrow> abortsAtFailure c k r1"
  by (simp add: abortsAtFailure_def cong: option.case_cong)

lemma abortsAtFailure_andThen:
  assumes "actsOf (fst m) = []" and "\<And>a. abortsAtFailure c k (f a)"
  shows "abortsAtFailure c k (andThen m f)"
proof (cases "snd m")
  case (Inl e)
  then have "actsOf (fst (andThen m f)) = []"
    using assms(1) by (simp add: fst_andThen actsOf_append)
  then show ?thesis by (rule abortsAtFailure_no_acts)
next
  case (Inr a)
  then have "actsOf (fst (andThen m f)) = actsOf (fst (f a))" "snd (andThen m f) = snd (f a)"
    using assms(1) by (simp_all add: fst_andThen snd_andThen actsOf_append)
  then show ?thesis using assms(2)[of a] by (rule abortsAtFailure_same)
qed

lemma abortsAtFailure_fillBoth: "abortsAtFailure c 2 (fillBoth c u p cr)"
  by (simp add: abortsAtFailure_def fillBoth_run split: option.splits)

lemma abortsAtFailure_fillOne:
  "0 < k \<Longrightarrow> abortsAtFailure c k (andThen (fillField c r v) (\<lambda>u1. ([], Inr x)))"
  by (simp add: abortsAtFailure_def fillField_def andThen_def split: option.splits)

lemma abortsAtFailure_thrown: "abortsAtFailure c k ([], Inl m)"
  by (simp add: abortsAtFailure_def)

lemma abortsAtFailure_returned: "abortsAtFailure c k ([], Inr x)"
  by (simp add: abortsAtFailure_def)

lemma browserSnapshot_no_acts: "actsOf (fst (browserSnapshot c)) = []"
  by (simp add: browserSnapshot_trace)

lemma vaultResolve_no_acts: "actsOf (fst (vaultResolve i p c)) = []"
  using vaultResolve_trace by blast

lemma abortsAtFailure_vaultInject: "abortsAtFailure c 2 (vaultInject i fm p c)"
  unfolding vaultInject_def
proof (rule abortsAtFailure_andThen[OF vaultResolve_no_acts])
  fix creds
  show "abortsAtFailure c 2
     (case (truthyString (fieldRef fm ''username''), truthyString (fieldRef fm ''password'')) of
        (Some usernameRef, Some passwordRef) \<Rightarrow> fillBoth c usernameRef passwordRef creds
      | _ \<Rightarrow>
          andThen (browserSnapshot c) (\<lambda>snap.
            if snap = SnapshotNotOk
            then ([], Inl ''Failed to take page snapshot for credential injection'')
            else
              let nodes = nodesOf snap;
                  emailNode = find (labelMatches emailPattern) nodes;
                  passwordNode = find (labelMatches passwordPattern) nodes
              in (case emailNode of
                    None \<Rightarrow>
                      ([], Inl ''Could not auto-detect username/email input field on page'')
                  | Some en \<Rightarrow>
                      (case passwordNode of
                         None \<Rightarrow>
                           ([], Inl ''Could not auto-detect password input field on page'')
                       | Some pn \<Rightarrow> fillBoth c (ref en) (ref pn) creds))))"
    (is "abortsAtFailure c 2 (case ?refs of (Some a, Some b) \<Rightarrow> ?explicit a b | _ \<Rightarrow> ?auto)")
  proof -
    have auto: "abortsAtFailure c 2 ?auto"
    proof (rule abortsAtFailure_andThen[OF browserSnapshot_no_acts])
      fix snap
      show "abortsAtFailure c 2
         (if snap = SnapshotNotOk
          then ([], Inl ''Failed to take page snapshot for credential injection'')
          else
            let nodes = nodesOf snap;
                emailNode = find (labelMatches emailPattern) nodes;
                passwordNode = find (labelMatches passwordPattern) nodes
            in (case emailNode of
                  None \<Rightarrow>
                    ([], Inl ''Could not auto-detect username/email input field on page'')
                | Some en \<Rightarrow>
                    (case passwordNode of
                       None \<Rightarrow>
                         ([], Inl ''Could not auto-detect password input field on page'')
                     | Some pn \<Rightarrow> fillBoth c (ref en) (ref pn) creds)))"
        by (simp add: Let_def abortsAtFailure_thrown abortsAtFailure_fillBoth
            split: option.splits)
    qed
    show ?thesis
      using auto by (simp add: abortsAtFailure_fillBoth split: option.splits prod.splits)
  qed
qed

lemma abortsAtFailure_vaultInjectTotp: "abortsAtFailure c 1 (vaultInjectTotp i r p c)"
  unfolding vaultInjectTotp_def
proof (rule abortsAtFailure_andThen[OF vaultResolve_no_acts])
  fix creds
  have auto: "abortsAtFailure c 1
     (andThen (browserSnapshot c) (\<lambda>snap.
        if snap = SnapshotNotOk
        then ([], Inl ''Failed to take page snapshot for TOTP injection'')
        else
          (case find (labelMatches totpPattern) (nodesOf snap) of
             None \<Rightarrow>
               ([], Inl ''Could not auto-detect TOTP/verification code input field on page'')
           | Some codeNode \<Rightarrow>
               andThen (fillField c (ref codeNode) code) (\<lambda>u1.
                 ([], Inr (filledResult True))))))" for code
  proof (rule abortsAtFailure_andThen[OF browserSnapshot_no_acts])
    fix snap
    show "abortsAtFailure c 1
       (if snap = SnapshotNotOk
        then ([], Inl ''Failed to take page snapshot for TOTP injection'')
        else
          (case find (labelMatches totpPattern) (nodesOf snap) of
             None \<Rightarrow>
               ([], Inl ''Could not auto-detect TOTP/verification code input field on page'')
           | Some codeNode \<Rightarrow>
               andThen (fillField c (ref codeNode) code) (\<lambda>u1.
                 ([], Inr (filledResult True)))))"
      by (simp add: abortsAtFailure_thrown abortsAtFailure_fillOne split: option.splits)
  qed
  show "abortsAtFailure c 1
     (case truthyString (totp creds) of
        None \<Rightarrow> ([], Inr (filledResult False))
      | Some code \<Rightarrow>
          (case truthyString r of
             Some r \<Rightarrow>
               andThen (fillField c r code) (\<lambda>u1. ([], Inr (filledResult True)))
           | None \<Rightarrow>
               andThen (browserSnapshot c) (\<lambda>snap.
                 if snap = SnapshotNotOk
                 then ([], Inl ''Failed to take page snapshot for TOTP injection'')
                 else
                   (case find (labelMatches totpPattern) (nodesOf snap) of
                      None \<Rightarrow>
                        ([], Inl ''Could not auto-detect TOTP/verification code input field on page'')
                    | Some codeNode \<Rightarrow>
                        andThen (fillField c (ref codeNode) code) (\<lambda>u1.
                          ([], Inr (filledResult True)))))))"
    using auto
    by (simp add: abortsAtFailure_returned abortsAtFailure_fillOne split: option.splits)
qed

text \<open>
  C8, as the code has it.  \<open>vaultInject\<close> (at most two fields) and \<open>vaultInjectTotp\<close> (at
  most one) abort at the first failed injection and throw its message: no field is tried
  after it and none is tried again.  \<open>vaultFill\<close> does not abort: with a client and a
  non-empty field map it makes, for every entry in order, exactly the calls the entry
  needs alone, whatever became of the entries before it, and it reports the number of
  entries that succeeded and the message of each that failed.
\<close>

theorem injection_failure_handling:
  "abortsAtFailure c 2 (vaultInject itemRef fieldMap vaultPrefix c)
   \<and> abortsAtFailure c 1 (vaultInjectTotp itemRef totpRef vaultPrefix c)
   \<and> (es \<noteq> [] \<and> snd (getClient c) = Inr ()
      \<longrightarrow> fst (vaultFill vaultItem (Some es) vaultPrefix c)
            = concat (map (fieldCalls c (basePathOf vaultItem vaultPrefix)) es)
          \<and> snd (vaultFill vaultItem (Some es) vaultPrefix c)
            = fillSummary
                (length (filter (\<lambda>e. fieldFailure c (basePathOf vaultItem vaultPrefix) e = None) es))
                (length es)
                (List.map_filter (fieldFailure c (basePathOf vaultItem vaultPrefix)) es))"
proof (intro conjI impI)
  show "abortsAtFailure c 2 (vaultInject itemRef fieldMap vaultPrefix c)"
    by (rule abortsAtFailure_vaultInject)
  show "abortsAtFailure c 1 (vaultInjectTotp itemRef totpRef vaultPrefix c)"
    by (rule abortsAtFailure_vaultInjectTotp)
next
  assume h: "es \<noteq> [] \<and> snd (getClient c) = Inr ()"
  then have g: "getClient c = ([], Inr ())"
    using fst_getClient[of c] by (cases "getClient c") simp
  show "fst (vaultFill vaultItem (Some es) vaultPrefix c)
      = concat (map (fieldCalls c (basePathOf vaultItem vaultPrefix)) es)"
    using h g by (simp add: vaultFill_def fillEntries_each)
  show "snd (vaultFill vaultItem (Some es) vaultPrefix c)
      = fillSummary
          (length (filter (\<lambda>e. fieldFailure c (basePathOf vaultItem vaultPrefix) e = None) es))
          (length es)
          (List.map_filter (fieldFailure c (basePathOf vaultItem vaultPrefix)) es)"
    using h g by (simp add: vaultFill_def fillEntries_each)
qed

theorem injection_failure_handling_witness:
  "abortsAtFailure e1Missing 2 (vaultInject ''amazon'' None None e1Missing)
   \<and> actsOf (fst (vaultInject ''amazon'' None None e1Missing)) = [(''e1'', ''alice@example.org'')]
   \<and> snd (vaultInject ''amazon'' None None e1Missing) = Inl ''element e1 not found''
   \<and> abortsAtFailure loginPage 1 (vaultInjectTotp ''amazon'' (Some ''e9'') None loginPage)
   \<and> fst (vaultFill ''amazon'' (Some [(''e1'', ''username''), (''e2'', ''password'')]) None loginPage)
       = [Resolved ''op://Private/amazon/username'', Act ''e1'' ''alice@example.org'',
          Resolved ''op://Private/amazon/password'', Act ''e2'' ''hunter2'']
   \<and> snd (vaultFill ''amazon'' (Some [(''e1'', ''username''), (''e2'', ''password'')]) None loginPage)
       = fillSummary 2 2 []"
proof -
  let ?es = "[(''e1'', ''username''), (''e2'', ''password'')]"
  have a: "actsOf (fst (vaultInject ''amazon'' None None e1Missing))
      = [(''e1'', ''alice@example.org'')]"
    by code_simp
  have s: "snd (vaultInject ''amazon'' None None e1Missing) = Inl ''element e1 not found''"
    by code_simp
  have g: "?es \<noteq> [] \<and> snd (getClient loginPage) = Inr ()"
    by (simp add: getClient_def loginPage_def)
  have calls: "concat (map (fieldCalls loginPage (basePathOf ''amazon'' None)) ?es)
      = [Resolved ''op://Private/amazon/username'', Act ''e1'' ''alice@example.org'',
         Resolved ''op://Private/amazon/password'', Act ''e2'' ''hunter2'']"
    by code_simp
  have ok: "length (filter (\<lambda>e. fieldFailure loginPage (basePathOf ''amazon'' None) e = None) ?es) = 2"
    by code_simp
  have errs: "List.map_filter (fieldFailure loginPage (basePathOf ''amazon'' None)) ?es = []"
    by code_simp
  have n: "length ?es = 2" by simp
  have w1: "abortsAtFailure e1Missing 2 (vaultInject ''amazon'' None None e1Missing)"
    using injection_failure_handling [where c = e1Missing and itemRef = "''amazon''" and fieldMap = None
        and vaultPrefix = None]
    by blast
  note fill = injection_failure_handling [where c = loginPage and itemRef = "''amazon''" and totpRef = "Some ''e9''"
        and vaultPrefix = None and es = ?es and vaultItem = "''amazon''"]
  have w2: "abortsAtFailure loginPage 1 (vaultInjectTotp ''amazon'' (Some ''e9'') None loginPage)"
    using fill by blast
  have w3: "fst (vaultFill ''amazon'' (Some ?es) None loginPage)
      = concat (map (fieldCalls loginPage (basePathOf ''amazon'' None)) ?es)"
    using fill g by blast
  have w4: "snd (vaultFill ''amazon'' (Some ?es) None loginPage)
      = fillSummary
          (length (filter (\<lambda>e. fieldFailure loginPage (basePathOf ''amazon'' None) e = None) ?es))
          (length ?es)
          (List.map_filter (fieldFailure loginPage (basePathOf ''amazon'' None)) ?es)"
    using fill g by blast
  have w3': "fst (vaultFill ''amazon'' (Some ?es) None loginPage)
      = [Resolved ''op://Private/amazon/username'', Act ''e1'' ''alice@example.org'',
         Resolved ''op://Private/amazon/password'', Act ''e2'' ''hunter2'']"
    using w3 unfolding calls .
  have w4': "snd (vaultFill ''amazon'' (Some ?es) None loginPage) = fillSummary 2 2 []"
    using w4 unfolding ok errs n .
  show ?thesis using w1 a s w2 w3' w4' by blast
qed

text \<open>
  C8 as stated fails for \<open>vaultFill\<close>: typing into \<^verbatim>\<open>e1\<close> fails, and the next field is
  still resolved and typed into \<^verbatim>\<open>e2\<close>; the result counts one field filled.
\<close>

theorem vaultFill_continues_after_failure:
  "act e1Missing ''e1'' ''alice@example.org'' = Some ''element e1 not found''
   \<and> fst (vaultFill ''amazon'' (Some [(''e1'', ''username''), (''e2'', ''password'')]) None e1Missing)
       = [Resolved ''op://Private/amazon/username'', Act ''e1'' ''alice@example.org'',
          Resolved ''op://Private/amazon/password'', Act ''e2'' ''hunter2'']
   \<and> snd (vaultFill ''amazon'' (Some [(''e1'', ''username''), (''e2'', ''password'')]) None e1Missing)
       = fillSummary 1 2 [fieldError ''username'' ''e1'' ''element e1 not found'']"
  by code_simp


end
